theory Spec2Isabelle
  imports Main "HOL-Library.AList" "HOL-Library.Char_ord" "HOL-Library.List_Lexorder"
begin

section \<open>Python values used by the scraper\<close>

subsection \<open>Strings\<close>

text \<open>
  A Python \<open>str\<close> is modelled as a \<^typ>\<open>string\<close>; a character stands for a code point
  below 256. \<open>str.isspace\<close> holds below 256 for the code points 9 to 13, 28 to 32, 133
  and 160; \<open>str.lower\<close> moves \<open>A\<close> to \<open>Z\<close> and the Latin-1 capitals (192 to 222 without
  215) up by 32 and leaves every other code point alone. Strings compare as in Python,
  lexicographically by code point.
\<close>

definition isspace :: "char \<Rightarrow> bool" where
  "isspace c =
     (let n = (of_char c :: nat)
      in (9 \<le> n \<and> n \<le> 13) \<or> (28 \<le> n \<and> n \<le> 32) \<or> n = 133 \<or> n = 160)"

definition str_strip :: "string \<Rightarrow> string" where
  "str_strip s = rev (dropWhile isspace (rev (dropWhile isspace s)))"

definition char_lower :: "char \<Rightarrow> char" where
  "char_lower c =
     (let n = (of_char c :: nat)
      in if (65 \<le> n \<and> n \<le> 90) \<or> (192 \<le> n \<and> n \<le> 222 \<and> n \<noteq> 215)
         then char_of (n + 32) else c)"

definition str_lower :: "string \<Rightarrow> string" where
  "str_lower s = map char_lower s"

text \<open>\<open>s.split(sep)\<close> for a one-character separator: never empty, \<open>''.split(',') == ['']\<close>.\<close>

fun str_split :: "char \<Rightarrow> string \<Rightarrow> string list" where
  "str_split sep [] = [[]]"
| "str_split sep (c # cs) =
     (if c = sep then [] # str_split sep cs
      else (case str_split sep cs of
              [] \<Rightarrow> [[c]]
            | piece # pieces \<Rightarrow> (c # piece) # pieces))"

text \<open>\<open>s.split(sep, 1)\<close>: one piece when \<open>sep\<close> does not occur, else the text before the
  first \<open>sep\<close> and the text after it.\<close>

definition str_split1 :: "char \<Rightarrow> string \<Rightarrow> string list" where
  "str_split1 sep s =
     (if sep \<in> set s
      then [takeWhile (\<lambda>c. c \<noteq> sep) s, tl (dropWhile (\<lambda>c. c \<noteq> sep) s)]
      else [s])"

text \<open>\<open>posixpath.join(a, b)\<close>.\<close>

definition path_join :: "string \<Rightarrow> string \<Rightarrow> string" where
  "path_join a b =
     (if b \<noteq> [] \<and> hd b = CHR ''/'' then b
      else if a = [] \<or> last a = CHR ''/'' then a @ b
      else a @ ''/'' @ b)"

subsection \<open>Dictionaries\<close>

text \<open>
  A \<open>dict\<close> keeps its keys in insertion order, and the scraper iterates over several of
  them, so a dictionary is an association list with distinct keys: \<open>d[k] = v\<close> is
  \<^const>\<open>AList.update\<close> (in place for a known key, at the end for a new one), \<open>k in d\<close>
  and \<open>d.get(k)\<close> read \<^const>\<open>map_of\<close>, \<open>d.items()\<close> is the list itself.
\<close>

type_synonym ('k, 'v) dict = "('k \<times> 'v) list"

text \<open>\<open>d[k].append(x)\<close> on a \<open>defaultdict(list)\<close>.\<close>

definition dict_append :: "'k \<Rightarrow> 'v \<Rightarrow> ('k, 'v list) dict \<Rightarrow> ('k, 'v list) dict" where
  "dict_append k x d = AList.map_default k [x] (\<lambda>l. l @ [x]) d"

text \<open>\<open>d.pop(k, None)\<close>: the value removed and the dictionary left.\<close>

definition dict_pop :: "'k \<Rightarrow> ('k, 'v) dict \<Rightarrow> 'v option \<times> ('k, 'v) dict" where
  "dict_pop k d = (map_of d k, AList.delete k d)"

subsection \<open>Paginated lists\<close>

text \<open>
  A \<open>PaginatedList\<close> of the GitHub client yields its items page by page; a page request
  can raise. \<open>Feed xs r\<close> yields \<open>xs\<close> and then ends (\<open>r\<close> false) or raises (\<open>r\<close> true).
\<close>

datatype 'a feed = Feed (items: "'a list") (raises: bool)

section \<open>Data model\<close>

text \<open>Timestamps are seconds on the UTC time line, as an \<^typ>\<open>int\<close>.\<close>

record File =
  filename :: string
  status :: string
  additions :: int
  deletions :: int
  patch :: "string option"

text \<open>
  A \<open>github.Commit\<close>. \<open>author_login\<close> and \<open>committer_login\<close> are \<open>commit.author.login\<close> and
  \<open>commit.committer.login\<close> (\<open>None\<close> when the commit is not linked to an account);
  \<open>author_date\<close> is \<open>commit.commit.author.date\<close>, \<open>committer_name\<close> is
  \<open>commit.commit.committer.name\<close>. A commit of a listing is completed on first use:
  \<open>stats_raises\<close> says that reading \<open>commit.stats\<close> raises, \<open>files_raises\<close> that the
  paginated \<open>commit.files\<close> raises after it has yielded \<open>files\<close>.
\<close>

record Commit =
  sha :: string
  html_url :: string
  message :: string
  author_login :: "string option"
  committer_login :: "string option"
  author_date :: int
  committer_name :: string
  parents :: "string list"
  stats_additions :: int
  stats_deletions :: int
  stats_total :: int
  files :: "File list"
  stats_raises :: bool
  files_raises :: bool

record CommitRecord =
  repo_full_name :: string
  commit :: Commit

text \<open>
  A pull request with what the scraper reads of it: \<open>pr.user.login\<close>, \<open>pr.updated_at\<close>,
  \<open>pr.base.repo.full_name\<close>, \<open>pr.base.repo.owner.login\<close> and \<open>pr.get_commits()\<close>.
\<close>

record PullRequest =
  number :: int
  user_login :: string
  updated_at :: "int option"
  base_repo_full_name :: string
  base_repo_owner_login :: string
  pr_commits :: "Commit feed"

text \<open>
  A repository. \<open>get_commits repo author since\<close> is what the service answers to
  \<open>repo.get_commits(author=author, since=since)\<close>; \<open>get_pulls\<close> is
  \<open>repo.get_pulls(state='all', sort='updated', direction='desc')\<close>.
\<close>

record Repository =
  full_name :: string
  owner_login :: string
  description :: "string option"
  get_commits :: "string \<Rightarrow> int \<Rightarrow> Commit feed"
  get_pulls :: "PullRequest feed"

record GitHubAPI =
  token :: string

text \<open>
  What lies outside the program: the two environment variables it reads, the login the
  service resolves a token to (\<open>client.get_user().login\<close>, \<open>None\<close> when the call raises)
  and the repository the service returns for a token and a full name (\<open>None\<close> when
  \<open>client.get_repo\<close> raises); and the file system: whether \<open>os.makedirs\<close> of a path
  succeeds, and what happens when a path is opened for writing and written.
\<close>

text \<open>
  Writing a file: all of it is written; or \<open>open\<close> raises and no file appears (the
  directory of the path does not exist, say, or may not be written); or something raises
  after \<open>open\<close> has created the file, which is left incomplete.
\<close>

datatype write_outcome = Written | OpenFails | WriteFails

record world =
  environ_GITHUB_TOKEN :: "string option"
  environ_GITHUB_REPOSITORIES :: "string option"
  get_user_login :: "string \<Rightarrow> string option"
  get_repo :: "string \<Rightarrow> string \<Rightarrow> Repository option"
  makedirs_ok :: "string \<Rightarrow> bool"
  disk :: "string \<Rightarrow> write_outcome"

section \<open>modules/api.py\<close>

subsection \<open>parse_token_map\<close>

text \<open>The body of the loop over \<open>token_str.split(',')\<close>.\<close>

definition parse_token_pair :: "string \<Rightarrow> (string, string) dict \<Rightarrow> (string, string) dict" where
  "parse_token_pair pair tokens =
     (if CHR '':'' \<in> set pair
      then (let owner = takeWhile (\<lambda>c. c \<noteq> CHR '':'') pair;
                tok = tl (dropWhile (\<lambda>c. c \<noteq> CHR '':'') pair)
            in AList.update (str_lower (str_strip owner)) (str_strip tok) tokens)
      else AList.update ''_default'' (str_strip pair) tokens)"

definition parse_token_map :: "string \<Rightarrow> (string, string) dict" where
  "parse_token_map token_str = fold parse_token_pair (str_split CHR '','' token_str) []"

subsection \<open>group_repos_by_owner\<close>

text \<open>\<open>owner, _ = repo_full_name.split('/', 1)\<close> raises \<open>ValueError\<close> on a name without a
  slash; the name is then skipped.\<close>

definition group_repo :: "string \<Rightarrow> (string, string list) dict \<Rightarrow> (string, string list) dict" where
  "group_repo full grouped_repos =
     (case str_split1 CHR ''/'' full of
        [owner, rest] \<Rightarrow> dict_append (str_lower owner) full grouped_repos
      | _ \<Rightarrow> grouped_repos)"

definition group_repos_by_owner :: "string list \<Rightarrow> (string, string list) dict" where
  "group_repos_by_owner repo_full_names = fold group_repo repo_full_names []"

subsection \<open>GitHubAPI\<close>

text \<open>\<open>GitHubAPI.__init__\<close>: the token given, else \<open>GITHUB_TOKEN\<close>; \<open>ValueError\<close> (here
  \<open>None\<close>) when neither is a non-empty string.\<close>

definition new_GitHubAPI :: "world \<Rightarrow> string \<Rightarrow> GitHubAPI option" where
  "new_GitHubAPI w tok =
     (case (if tok \<noteq> [] then Some tok else environ_GITHUB_TOKEN w) of
        None \<Rightarrow> None
      | Some t \<Rightarrow> if t = [] then None else Some \<lparr>token = t\<rparr>)"

definition fetch_repo_by_full_name :: "world \<Rightarrow> GitHubAPI \<Rightarrow> string \<Rightarrow> Repository option" where
  "fetch_repo_by_full_name w api full = get_repo w (token api) full"

text \<open>\<open>list(repo.get_commits(...))\<close> raises when the listing does, and the \<open>except\<close> branch
  returns the empty list.\<close>

definition fetch_repo_commit_records ::
  "Repository \<Rightarrow> string \<Rightarrow> int \<Rightarrow> bool \<Rightarrow> bool \<Rightarrow> CommitRecord list" where
  "fetch_repo_commit_records repo username since include_merge_commits exclude_pr_merge_commits =
     (case get_commits repo username since of
        Feed cs True \<Rightarrow> []
      | Feed cs False \<Rightarrow>
          (let commits = cs;
               commits = (if \<not> include_merge_commits
                          then filter (\<lambda>c. length (parents c) \<le> 1) commits else commits);
               commits = (if exclude_pr_merge_commits
                          then filter (\<lambda>c. committer_name c \<noteq> ''GitHub'') commits else commits)
           in map (\<lambda>c. \<lparr>repo_full_name = full_name repo, commit = c\<rparr>) commits))"

text \<open>
  The loop over one repository's pull requests, on the pull requests the feed yields.
  A missing \<open>updated_at\<close> fails the \<open>assert\<close>, which the \<open>except\<close> of the repository catches;
  an \<open>updated_at\<close> before \<open>since\<close> breaks out of the loop. Either way the pull requests
  collected so far stay, as they do when the feed itself raises after its last item.
\<close>

fun scan_pulls :: "string \<Rightarrow> int \<Rightarrow> PullRequest list \<Rightarrow> PullRequest list \<Rightarrow> PullRequest list" where
  "scan_pulls username since [] all_pull_requests = all_pull_requests"
| "scan_pulls username since (pr # prs) all_pull_requests =
     (case updated_at pr of
        None \<Rightarrow> all_pull_requests
      | Some t \<Rightarrow>
          if t < since then all_pull_requests
          else scan_pulls username since prs
                 (if user_login pr = username then all_pull_requests @ [pr]
                  else all_pull_requests))"

definition fetch_user_pull_requests_in_repos ::
  "Repository list \<Rightarrow> string \<Rightarrow> int \<Rightarrow> PullRequest list" where
  "fetch_user_pull_requests_in_repos repos username since =
     fold (\<lambda>repo all_pull_requests.
             scan_pulls username since (items (get_pulls repo)) all_pull_requests) repos []"

text \<open>The loop over a pull request's commits; when the feed raises, the records collected
  from the commits it yielded are returned.\<close>

fun scan_pr_commits ::
  "string \<Rightarrow> string \<Rightarrow> int \<Rightarrow> Commit list \<Rightarrow> CommitRecord list \<Rightarrow> CommitRecord list" where
  "scan_pr_commits base username since [] user_commit_records = user_commit_records"
| "scan_pr_commits base username since (c # cs) user_commit_records =
     scan_pr_commits base username since cs
       (if author_login c = Some username then
          (if author_date c \<ge> since then
             (if length (parents c) > 1 then user_commit_records
              else user_commit_records @ [\<lparr>repo_full_name = base, commit = c\<rparr>])
           else user_commit_records)
        else user_commit_records)"

definition fetch_user_commit_records_in_pr_after_date ::
  "PullRequest \<Rightarrow> string \<Rightarrow> int \<Rightarrow> CommitRecord list" where
  "fetch_user_commit_records_in_pr_after_date pr username since =
     scan_pr_commits (base_repo_full_name pr) username since (items (pr_commits pr)) []"

subsection \<open>initialize_apis\<close>

text \<open>The body of the loop over \<open>token_map.items()\<close>: a failing constructor or a failing
  \<open>get_user()\<close> skips the owner.\<close>

definition init_owner_api ::
  "world \<Rightarrow> string \<times> string \<Rightarrow> (string, GitHubAPI) dict \<Rightarrow> (string, GitHubAPI) dict" where
  "init_owner_api w entry apis =
     (case entry of (owner, tok) \<Rightarrow>
        if map_of apis owner \<noteq> None then apis
        else (case new_GitHubAPI w tok of
                None \<Rightarrow> apis
              | Some api \<Rightarrow>
                  (case get_user_login w (token api) of
                     None \<Rightarrow> apis
                   | Some api_user_login \<Rightarrow> AList.update owner api apis)))"

text \<open>The default client: \<open>Inl 1\<close> is \<open>sys.exit(1)\<close>; otherwise the clients registered so
  far and \<open>default_api\<close>.\<close>

definition init_default_api ::
  "world \<Rightarrow> string option \<Rightarrow> int + ((string, GitHubAPI) dict \<times> GitHubAPI option)" where
  "init_default_api w default_token =
     (case default_token of
        None \<Rightarrow> Inr ([], None)
      | Some t \<Rightarrow>
          if t = [] then Inr ([], None)
          else (case new_GitHubAPI w t of
                  None \<Rightarrow> Inl 1
                | Some default_api \<Rightarrow>
                    (case get_user_login w (token default_api) of
                       None \<Rightarrow> Inl 1
                     | Some login \<Rightarrow>
                         Inr (AList.update (str_lower login) default_api [], Some default_api))))"

definition initialize_apis :: "world \<Rightarrow> (string, string) dict \<Rightarrow> int + (string, GitHubAPI) dict" where
  "initialize_apis w token_map0 =
     (case dict_pop ''_default'' token_map0 of (default_token, token_map) \<Rightarrow>
        (case init_default_api w default_token of
           Inl code \<Rightarrow> Inl code
         | Inr (apis0, default_api) \<Rightarrow>
             (let apis = fold (init_owner_api w) token_map apis0
              in Inr (case default_api of
                        None \<Rightarrow> apis
                      | Some api \<Rightarrow>
                          if map_of apis ''_default'' = None
                          then AList.update ''_default'' api apis else apis))))"

subsection \<open>fetch_repositories\<close>

text \<open>\<open>apis.get(owner) or default_api\<close>, with \<open>default_api = apis.get('_default')\<close>.\<close>

definition lookup_api :: "(string, GitHubAPI) dict \<Rightarrow> string \<Rightarrow> GitHubAPI option" where
  "lookup_api apis owner =
     (case map_of apis owner of Some api \<Rightarrow> Some api | None \<Rightarrow> map_of apis ''_default'')"

fun fetch_repositories_from ::
  "world \<Rightarrow> (string, GitHubAPI) dict \<Rightarrow> (string, string list) dict \<Rightarrow> Repository list
   \<Rightarrow> int + Repository list" where
  "fetch_repositories_from w apis [] repos = Inr repos"
| "fetch_repositories_from w apis ((owner, owner_repos) # rest) repos =
     (case lookup_api apis owner of
        None \<Rightarrow> Inl 1
      | Some api \<Rightarrow>
          fetch_repositories_from w apis rest
            (repos @ List.map_filter (fetch_repo_by_full_name w api) owner_repos))"

definition fetch_repositories ::
  "world \<Rightarrow> (string, GitHubAPI) dict \<Rightarrow> (string, string list) dict \<Rightarrow> int + Repository list" where
  "fetch_repositories w apis repos_by_owner = fetch_repositories_from w apis repos_by_owner []"

subsection \<open>process_commits_and_prs\<close>

definition get_api_for_repo :: "(string, GitHubAPI) dict \<Rightarrow> string \<Rightarrow> int + GitHubAPI" where
  "get_api_for_repo apis repo_owner_login =
     (case lookup_api apis (str_lower repo_owner_login) of
        None \<Rightarrow> Inl 1
      | Some api \<Rightarrow> Inr api)"

text \<open>The loop over the repositories, on the state \<open>(all_commit_records, all_pull_requests,
  processed_repo_names)\<close>.\<close>

fun process_repos ::
  "(string, GitHubAPI) dict \<Rightarrow> string \<Rightarrow> int \<Rightarrow> bool \<Rightarrow> bool \<Rightarrow> Repository list
   \<Rightarrow> CommitRecord list \<times> PullRequest list \<times> string set
   \<Rightarrow> int + (CommitRecord list \<times> PullRequest list \<times> string set)" where
  "process_repos apis username since_date fetch_pr_commits include_merge_commits [] st = Inr st"
| "process_repos apis username since_date fetch_pr_commits include_merge_commits (repo # repos)
     (all_commit_records, all_pull_requests, processed_repo_names) =
     (if full_name repo \<in> processed_repo_names
      then process_repos apis username since_date fetch_pr_commits include_merge_commits repos
             (all_commit_records, all_pull_requests, processed_repo_names)
      else (case get_api_for_repo apis (owner_login repo) of
              Inl code \<Rightarrow> Inl code
            | Inr api_client \<Rightarrow>
                process_repos apis username since_date fetch_pr_commits include_merge_commits repos
                  (all_commit_records
                     @ fetch_repo_commit_records repo username since_date
                         include_merge_commits fetch_pr_commits,
                   (if fetch_pr_commits
                    then all_pull_requests
                           @ fetch_user_pull_requests_in_repos [repo] username since_date
                    else all_pull_requests),
                   insert (full_name repo) processed_repo_names)))"

text \<open>The loop over the pull requests, on the state \<open>(all_pr_commit_records,
  processed_pr_numbers)\<close>.\<close>

fun process_prs ::
  "(string, GitHubAPI) dict \<Rightarrow> string \<Rightarrow> int \<Rightarrow> PullRequest list
   \<Rightarrow> CommitRecord list \<times> (string \<times> int) set
   \<Rightarrow> int + (CommitRecord list \<times> (string \<times> int) set)" where
  "process_prs apis username since_date [] st = Inr st"
| "process_prs apis username since_date (pr # prs) (all_pr_commit_records, processed_pr_numbers) =
     (let pr_key = (base_repo_full_name pr, number pr)
      in if pr_key \<in> processed_pr_numbers
         then process_prs apis username since_date prs (all_pr_commit_records, processed_pr_numbers)
         else (case get_api_for_repo apis (base_repo_owner_login pr) of
                 Inl code \<Rightarrow> Inl code
               | Inr pr_api \<Rightarrow>
                   process_prs apis username since_date prs
                     (all_pr_commit_records
                        @ fetch_user_commit_records_in_pr_after_date pr username since_date,
                      insert pr_key processed_pr_numbers)))"

text \<open>The deduplication loop: \<open>unique_commit_records\<close> after the records given.\<close>

definition unique_commit_record ::
  "CommitRecord \<Rightarrow> (string, CommitRecord) dict \<Rightarrow> (string, CommitRecord) dict" where
  "unique_commit_record r unique =
     (if map_of unique (sha (commit r)) = None
      then AList.update (sha (commit r)) r unique else unique)"

definition unique_commit_records :: "CommitRecord list \<Rightarrow> (string, CommitRecord) dict" where
  "unique_commit_records records = fold unique_commit_record records []"

text \<open>What the function returns for the two lists it has collected.\<close>

definition final_commit_list :: "CommitRecord list \<Rightarrow> CommitRecord list \<Rightarrow> CommitRecord list" where
  "final_commit_list all_commit_records all_pr_commit_records =
     map snd (unique_commit_records (all_commit_records @ all_pr_commit_records))"

definition process_commits_and_prs ::
  "Repository list \<Rightarrow> (string, GitHubAPI) dict \<Rightarrow> string \<Rightarrow> int \<Rightarrow> bool \<Rightarrow> bool
   \<Rightarrow> int + CommitRecord list" where
  "process_commits_and_prs repos apis username since_date fetch_pr_commits include_merge_commits =
     (case process_repos apis username since_date fetch_pr_commits include_merge_commits repos
             ([], [], {}) of
        Inl code \<Rightarrow> Inl code
      | Inr (all_commit_records, all_pull_requests, processed_repo_names) \<Rightarrow>
          (case (if fetch_pr_commits
                 then process_prs apis username since_date all_pull_requests ([], {})
                 else Inr ([], {})) of
             Inl code \<Rightarrow> Inl code
           | Inr (all_pr_commit_records, processed_pr_numbers) \<Rightarrow>
               Inr (final_commit_list all_commit_records all_pr_commit_records)))"

section \<open>Files written\<close>

text \<open>
  The output tree is a map from paths to what was written there. A file's text is kept
  as the data it serialises, in the order of writing: the formatting calls
  (\<open>json.dump\<close>, \<open>f.write\<close>) are not modelled. A file that a failed write has cut off
  is \<open>Incomplete\<close>. Directories are not part of the tree; whether one can be made is
  \<^const>\<open>makedirs_ok\<close>. Where a function can be left by an exception, its result is a sum:
  \<open>Inl\<close> holds the tree at the moment the exception leaves it, \<open>Inr\<close> the tree when it
  returns.
\<close>

datatype field_value =
    FStr string
  | FDate int
  | FStats int int int
  | FFiles "(string \<times> string \<times> int \<times> int) list"

type_synonym commit_data = "(string, field_value) dict"

text \<open>One repository's part of a report: its heading, the description written with it
  and the commits below it.\<close>

record repo_section =
  sec_name :: string
  sec_description :: "string option"
  sec_commits :: "commit_data list"

datatype content =
    MetadataJson string "string list" int
  | ReportMd "repo_section list"
  | ReportTxt "repo_section list"
  | ReportJson "repo_section list"
  | DiffFile "File list"
  | Incomplete

type_synonym filesystem = "string \<rightharpoonup> content"

section \<open>modules/metadata.py\<close>

text \<open>
  \<open>os.makedirs(output_path, exist_ok=True)\<close> stands before the \<open>try\<close>: when it raises, the
  exception leaves the function. The \<open>except\<close> branch catches a failing \<open>open\<close> or
  \<open>json.dump\<close> and logs it; the function then returns without a complete file.
\<close>

definition save_metadata ::
  "world \<Rightarrow> string \<Rightarrow> string \<Rightarrow> string list \<Rightarrow> int \<Rightarrow> filesystem
   \<Rightarrow> filesystem + filesystem" where
  "save_metadata w output_path username repo_full_names since fs =
     (if \<not> makedirs_ok w output_path then Inl fs
      else (let metadata_path = path_join output_path ''metadata.json''
            in case disk w metadata_path of
                 Written \<Rightarrow>
                   Inr (fs(metadata_path \<mapsto> MetadataJson username repo_full_names since))
               | OpenFails \<Rightarrow> Inr fs
               | WriteFails \<Rightarrow> Inr (fs(metadata_path \<mapsto> Incomplete))))"

section \<open>modules/reports.py\<close>

text \<open>The report writers have no \<open>try\<close>; they are given on the commits whose data can be
  read and for report files that can be written.\<close>

record ReportGenerator =
  md_report_path :: string
  text_report_path :: string
  json_report_path :: string
  commit_fields :: "string list"

definition new_ReportGenerator :: "string \<Rightarrow> string list option \<Rightarrow> ReportGenerator" where
  "new_ReportGenerator output_path chosen =
     \<lparr>md_report_path = path_join output_path ''report.md'',
      text_report_path = path_join output_path ''report.txt'',
      json_report_path = path_join output_path ''report.json'',
      commit_fields = (case chosen of
                         None \<Rightarrow> [''date'', ''url'', ''message'']
                       | Some l \<Rightarrow> if l = [] then [''date'', ''url'', ''message''] else l)\<rparr>"

definition build_commit_data :: "ReportGenerator \<Rightarrow> Commit \<Rightarrow> commit_data" where
  "build_commit_data gen c =
     (let commit_data = [];
          commit_data = (if ''date'' \<in> set (commit_fields gen)
                         then AList.update ''date'' (FDate (author_date c)) commit_data
                         else commit_data);
          commit_data = (if ''url'' \<in> set (commit_fields gen)
                         then AList.update ''url'' (FStr (html_url c)) commit_data
                         else commit_data);
          commit_data = (if ''message'' \<in> set (commit_fields gen)
                         then AList.update ''message'' (FStr (message c)) commit_data
                         else commit_data);
          commit_data = (if ''sha'' \<in> set (commit_fields gen)
                         then AList.update ''sha'' (FStr (sha c)) commit_data
                         else commit_data);
          commit_data = (if ''stats'' \<in> set (commit_fields gen)
                         then AList.update ''stats''
                                (FStats (stats_additions c) (stats_deletions c) (stats_total c))
                                commit_data
                         else commit_data);
          commit_data = (if ''files_changed'' \<in> set (commit_fields gen)
                         then AList.update ''files_changed''
                                (FFiles (map (\<lambda>f. (filename f, status f, additions f, deletions f))
                                           (files c)))
                                commit_data
                         else commit_data)
      in commit_data)"

text \<open>The grouping loop of \<open>generate_reports\<close> and the loop that sorts each group;
  \<open>list.sort\<close> is stable, as \<^const>\<open>sort_key\<close> is.\<close>

definition group_commits :: "CommitRecord list \<Rightarrow> (string, Commit list) dict" where
  "group_commits commit_records =
     fold (\<lambda>r d. dict_append (repo_full_name r) (commit r) d) commit_records []"

definition sort_groups :: "(string, Commit list) dict \<Rightarrow> (string, Commit list) dict" where
  "sort_groups d = map (\<lambda>(name, cs). (name, sort_key author_date cs)) d"

definition commits_by_repo_full_name :: "CommitRecord list \<Rightarrow> (string, Commit list) dict" where
  "commits_by_repo_full_name commit_records = sort_groups (group_commits commit_records)"

text \<open>The sections of the markdown and of the text report: one for each name of
  \<open>sorted(all_repos_full_names)\<close> that is a key of the grouping.\<close>

definition sorted_sections ::
  "ReportGenerator \<Rightarrow> (string, string) dict \<Rightarrow> (string, Commit list) dict \<Rightarrow> repo_section list" where
  "sorted_sections gen repo_descriptions by_repo =
     List.map_filter
       (\<lambda>name. case map_of by_repo name of
                 None \<Rightarrow> None
               | Some cs \<Rightarrow>
                   Some \<lparr>sec_name = name,
                         sec_description = map_of repo_descriptions name,
                         sec_commits = map (build_commit_data gen) cs\<rparr>)
       (sorted_list_of_set (set (map fst by_repo)))"

definition generate_markdown_report ::
  "ReportGenerator \<Rightarrow> (string, string) dict \<Rightarrow> (string, Commit list) dict
   \<Rightarrow> filesystem \<Rightarrow> filesystem" where
  "generate_markdown_report gen repo_descriptions by_repo fs =
     fs(md_report_path gen \<mapsto> ReportMd (sorted_sections gen repo_descriptions by_repo))"

definition generate_text_report ::
  "ReportGenerator \<Rightarrow> (string, string) dict \<Rightarrow> (string, Commit list) dict
   \<Rightarrow> filesystem \<Rightarrow> filesystem" where
  "generate_text_report gen repo_descriptions by_repo fs =
     fs(text_report_path gen \<mapsto> ReportTxt (sorted_sections gen repo_descriptions by_repo))"

text \<open>\<open>report_data\<close> of the JSON report: one entry for each item of
  \<open>commits_by_repo_full_name.items()\<close>, in the dictionary's order.\<close>

definition json_report_data ::
  "ReportGenerator \<Rightarrow> (string, string) dict \<Rightarrow> (string, Commit list) dict \<Rightarrow> repo_section list" where
  "json_report_data gen repo_descriptions by_repo =
     map (\<lambda>(name, commits).
            \<lparr>sec_name = name,
             sec_description =
               Some (case map_of repo_descriptions name of None \<Rightarrow> [] | Some d \<Rightarrow> d),
             sec_commits = map (build_commit_data gen) commits\<rparr>)
         by_repo"

definition generate_json_report ::
  "ReportGenerator \<Rightarrow> (string, string) dict \<Rightarrow> (string, Commit list) dict
   \<Rightarrow> filesystem \<Rightarrow> filesystem" where
  "generate_json_report gen repo_descriptions by_repo fs =
     fs(json_report_path gen \<mapsto> ReportJson (json_report_data gen repo_descriptions by_repo))"

definition generate_reports ::
  "ReportGenerator \<Rightarrow> CommitRecord list \<Rightarrow> (string, string) dict option \<Rightarrow> string list option
   \<Rightarrow> filesystem \<Rightarrow> filesystem" where
  "generate_reports gen commit_records repo_descriptions0 report_formats0 fs =
     (let repo_descriptions = (case repo_descriptions0 of None \<Rightarrow> [] | Some d \<Rightarrow> d);
          report_formats = (case report_formats0 of None \<Rightarrow> [''text''] | Some f \<Rightarrow> f);
          by_repo = commits_by_repo_full_name commit_records;
          fs = (if ''markdown'' \<in> set report_formats
                then generate_markdown_report gen repo_descriptions by_repo fs else fs);
          fs = (if ''text'' \<in> set report_formats
                then generate_text_report gen repo_descriptions by_repo fs else fs);
          fs = (if ''json'' \<in> set report_formats
                then generate_json_report gen repo_descriptions by_repo fs else fs)
      in fs)"

section \<open>modules/diff.py\<close>

record DiffGenerator =
  limit_files :: int
  limit_lines_changed :: int
  files_dir :: string

text \<open>\<open>DiffGenerator.__init__\<close> makes the directory \<open>commits\<close> with \<open>os.makedirs\<close>, which
  raises (here \<open>None\<close>) when the directory cannot be made or is there already.\<close>

definition new_DiffGenerator :: "world \<Rightarrow> string \<Rightarrow> int \<Rightarrow> int \<Rightarrow> DiffGenerator option" where
  "new_DiffGenerator w output_path lim_files lim_lines =
     (if makedirs_ok w (path_join output_path ''commits'')
      then Some \<lparr>limit_files = lim_files, limit_lines_changed = lim_lines,
                 files_dir = path_join output_path ''commits''\<rparr>
      else None)"

text \<open>The walk over \<open>record.commit.files\<close> that counts the files: \<open>num_files\<close> and
  \<open>file_limit_exceeded\<close> when the loop is left.\<close>

fun walk_files :: "int \<Rightarrow> File list \<Rightarrow> int \<Rightarrow> int \<times> bool" where
  "walk_files lim [] num_files = (num_files, False)"
| "walk_files lim (f # fs) num_files =
     (if num_files + 1 > lim then (num_files + 1, True)
      else walk_files lim fs (num_files + 1))"

text \<open>What is written for a commit: every file's header, and its patch when
  \<open>file.patch\<close> is a non-empty string.\<close>

definition diff_body :: "Commit \<Rightarrow> content" where
  "diff_body c =
     DiffFile (map (\<lambda>f. f\<lparr>patch := (case patch f of
                                       None \<Rightarrow> None
                                     | Some p \<Rightarrow> if p = [] then None else Some p)\<rparr>)
                   (files c))"

definition diff_path :: "DiffGenerator \<Rightarrow> CommitRecord \<Rightarrow> string" where
  "diff_path gen r = path_join (files_dir gen) (sha (commit r) @ ''.diff'')"

text \<open>
  The body of the loop over the commit records, on \<open>(files written, saved_count)\<close>.
  Reading \<open>record.commit.stats\<close> and the walk over \<open>record.commit.files\<close> stand before the
  \<open>try\<close>: an exception there leaves the function. The walk raises when it has gone through
  all of \<open>files\<close> without crossing the ceiling and the listing then raises. Inside the
  \<open>try\<close>, a failing \<open>open\<close>, and a write or a second listing of the files that raises
  once the file is open, are caught and logged, and the loop goes on with the next record.
\<close>

definition save_commit_diff ::
  "world \<Rightarrow> DiffGenerator \<Rightarrow> CommitRecord \<Rightarrow> filesystem \<times> nat
   \<Rightarrow> filesystem + (filesystem \<times> nat)" where
  "save_commit_diff w gen r st =
     (case st of (fs, saved_count) \<Rightarrow>
        if stats_raises (commit r) then Inl fs
        else if stats_total (commit r) > limit_lines_changed gen then Inr (fs, saved_count)
        else (case walk_files (limit_files gen) (files (commit r)) 0 of
                (num_files, file_limit_exceeded) \<Rightarrow>
                  if file_limit_exceeded then Inr (fs, saved_count)
                  else if files_raises (commit r) then Inl fs
                  else (let repo_name = last (str_split CHR ''/'' (repo_full_name r))
                        in if repo_name = [] \<or> sha (commit r) = [] then Inr (fs, saved_count)
                           else (case disk w (diff_path gen r) of
                                   Written \<Rightarrow>
                                     Inr (fs(diff_path gen r \<mapsto> diff_body (commit r)),
                                          saved_count + 1)
                                 | OpenFails \<Rightarrow> Inr (fs, saved_count)
                                 | WriteFails \<Rightarrow>
                                     Inr (fs(diff_path gen r \<mapsto> Incomplete), saved_count)))))"

text \<open>The loop: an exception that leaves its body leaves the function, with the files
  written so far.\<close>

fun save_commit_diffs_from ::
  "world \<Rightarrow> DiffGenerator \<Rightarrow> CommitRecord list \<Rightarrow> filesystem \<times> nat \<Rightarrow> filesystem + filesystem" where
  "save_commit_diffs_from w gen [] st = Inr (fst st)"
| "save_commit_diffs_from w gen (r # rs) st =
     (case save_commit_diff w gen r st of
        Inl fs \<Rightarrow> Inl fs
      | Inr st' \<Rightarrow> save_commit_diffs_from w gen rs st')"

definition save_commit_diffs ::
  "world \<Rightarrow> DiffGenerator \<Rightarrow> CommitRecord list \<Rightarrow> filesystem \<Rightarrow> filesystem + filesystem" where
  "save_commit_diffs w gen commit_records fs = save_commit_diffs_from w gen commit_records (fs, 0)"

section \<open>main.py\<close>

definition parse_repo_list :: "string \<Rightarrow> string list" where
  "parse_repo_list repos_str =
     (if repos_str = [] then []
      else map str_strip (filter (\<lambda>repo. str_strip repo \<noteq> []) (str_split CHR '','' repos_str)))"

text \<open>The parsed command line, as far as \<open>main\<close> reads it after \<open>validate_args\<close>.\<close>

record args =
  arg_username :: string
  arg_token :: "string option"
  arg_repositories :: "string option"
  arg_output :: string
  arg_fetch_pr_commits :: bool
  arg_include_merge_commits :: bool
  arg_commit_fields :: "string list"
  arg_report_formats :: "string list"
  arg_limit_download_diffs :: "int \<times> int"

text \<open>How a run ends: \<open>sys.exit(code)\<close>, or \<open>main\<close> returns (exit code 0), or an exception
  that nothing catches leaves \<open>main\<close> (the interpreter prints it and exits with code 1).\<close>

datatype outcome = SysExit int | Returned | Uncaught

text \<open>\<open>x or os.environ.get(name, '')\<close>.\<close>

definition or_environ :: "string option \<Rightarrow> string option \<Rightarrow> string" where
  "or_environ x env =
     (case x of
        Some s \<Rightarrow> if s \<noteq> [] then s else (case env of None \<Rightarrow> [] | Some e \<Rightarrow> e)
      | None \<Rightarrow> (case env of None \<Rightarrow> [] | Some e \<Rightarrow> e))"

text \<open>\<open>{repo.full_name: repo.description for repo in repos if repo.description}\<close>.\<close>

definition repo_descriptions_of :: "Repository list \<Rightarrow> (string, string) dict" where
  "repo_descriptions_of repos =
     fold (\<lambda>repo d. case description repo of
                      None \<Rightarrow> d
                    | Some t \<Rightarrow> if t = [] then d else AList.update (full_name repo) t d)
          repos []"

text \<open>
  \<open>main\<close> from the line after \<open>validate_args\<close>: \<open>since_date\<close> is the date it returned and
  \<open>timestamp\<close> the text of \<open>datetime.now().strftime(...)\<close>. The result is the output
  tree and how the run ended. \<open>os.makedirs(output_path, exist_ok=True)\<close> and
  \<open>save_metadata\<close> stand outside any \<open>try\<close>, as does the making of the diff generator;
  \<open>ReportGenerator.__init__\<close> makes the run directory once more, which is there by then.
\<close>

definition main :: "world \<Rightarrow> args \<Rightarrow> int \<Rightarrow> string \<Rightarrow> filesystem \<Rightarrow> filesystem \<times> outcome" where
  "main w a since_date timestamp fs =
     (let token_str = or_environ (arg_token a) (environ_GITHUB_TOKEN w)
      in if token_str = [] then (fs, SysExit 1)
      else (case initialize_apis w (parse_token_map token_str) of
              Inl code \<Rightarrow> (fs, SysExit code)
            | Inr apis \<Rightarrow>
      if apis = [] then (fs, SysExit 1)
      else (let repo_full_names =
                  parse_repo_list (or_environ (arg_repositories a) (environ_GITHUB_REPOSITORIES w))
            in if repo_full_names = [] then (fs, SysExit 1)
      else (let repos_by_owner = group_repos_by_owner repo_full_names;
                output_path = path_join (arg_output a) timestamp
            in if \<not> makedirs_ok w output_path then (fs, Uncaught)
      else (case save_metadata w output_path (arg_username a) repo_full_names since_date fs of
              Inl fs1 \<Rightarrow> (fs1, Uncaught)
            | Inr fs1 \<Rightarrow>
           (case fetch_repositories w apis repos_by_owner of
              Inl code \<Rightarrow> (fs1, SysExit code)
            | Inr repos \<Rightarrow>
      if repos = [] then (fs1, SysExit 1)
      else (case process_commits_and_prs repos apis (arg_username a) since_date
                   (arg_fetch_pr_commits a) (arg_include_merge_commits a) of
              Inl code \<Rightarrow> (fs1, SysExit code)
            | Inr all_unique_commit_records \<Rightarrow>
      if all_unique_commit_records = [] then (fs1, SysExit 0)
      else (let fs2 = generate_reports
                        (new_ReportGenerator output_path (Some (arg_commit_fields a)))
                        all_unique_commit_records (Some (repo_descriptions_of repos))
                        (Some (arg_report_formats a)) fs1
            in case new_DiffGenerator w output_path (fst (arg_limit_download_diffs a))
                      (snd (arg_limit_download_diffs a)) of
                 None \<Rightarrow> (fs2, Uncaught)
               | Some diff_generator \<Rightarrow>
                   (case save_commit_diffs w diff_generator all_unique_commit_records fs2 of
                      Inl fs3 \<Rightarrow> (fs3, Uncaught)
                    | Inr fs3 \<Rightarrow> (fs3, Returned))))))))))"

section \<open>Notions used in the statements\<close>

text \<open>A record is appended unless one with the same key is already there: the list of
  values that a first-occurrence-wins dictionary holds.\<close>

definition keep_first :: "('a \<Rightarrow> 'k) \<Rightarrow> 'a \<Rightarrow> 'a list \<Rightarrow> 'a list" where
  "keep_first f x vs = (if f x \<in> f ` set vs then vs else vs @ [x])"

text \<open>A pull request carries an update time that is not before \<open>since\<close>.\<close>

definition updated_since :: "int \<Rightarrow> PullRequest \<Rightarrow> bool" where
  "updated_since since pr = (case updated_at pr of None \<Rightarrow> False | Some t \<Rightarrow> since \<le> t)"

text \<open>A feed of pull requests ordered by update time, latest first.\<close>

definition updated_descending :: "PullRequest list \<Rightarrow> bool" where
  "updated_descending prs =
     sorted_wrt (\<lambda>p q. case updated_at p of
                          None \<Rightarrow> False
                        | Some a \<Rightarrow> (case updated_at q of None \<Rightarrow> False | Some b \<Rightarrow> b \<le> a)) prs"

text \<open>The repositories the aggregator processes: the first of every full name, apart from
  the names already seen.\<close>

fun processed_repos :: "string set \<Rightarrow> Repository list \<Rightarrow> Repository list" where
  "processed_repos seen [] = []"
| "processed_repos seen (repo # repos) =
     (if full_name repo \<in> seen then processed_repos seen repos
      else repo # processed_repos (insert (full_name repo) seen) repos)"

text \<open>The pull requests whose commits the aggregator fetches: the first of every pair of
  base repository and number, apart from the pairs already seen.\<close>

fun processed_prs :: "(string \<times> int) set \<Rightarrow> PullRequest list \<Rightarrow> PullRequest list" where
  "processed_prs seen [] = []"
| "processed_prs seen (pr # prs) =
     (if (base_repo_full_name pr, number pr) \<in> seen then processed_prs seen prs
      else pr # processed_prs (insert (base_repo_full_name pr, number pr) seen) prs)"

text \<open>The pieces of a token specification: an \<open>owner:token\<close> pair has a colon, a bare
  token has none; the owner of a pair is trimmed and lowercased, its token is trimmed.\<close>

definition has_colon :: "string \<Rightarrow> bool" where
  "has_colon pair = (CHR '':'' \<in> set pair)"

definition pair_owner :: "string \<Rightarrow> string" where
  "pair_owner pair = str_lower (str_strip (takeWhile (\<lambda>c. c \<noteq> CHR '':'') pair))"

definition pair_token :: "string \<Rightarrow> string" where
  "pair_token pair = str_strip (tl (dropWhile (\<lambda>c. c \<noteq> CHR '':'') pair))"

text \<open>The key a piece writes and the value it writes there.\<close>

definition token_key :: "string \<Rightarrow> string" where
  "token_key pair = (if has_colon pair then pair_owner pair else ''_default'')"

definition token_value :: "string \<Rightarrow> string" where
  "token_value pair = (if has_colon pair then pair_token pair else str_strip pair)"

text \<open>The author dates under every heading of a report file, in the order written.\<close>

fun section_dates :: "content option \<Rightarrow> (string \<times> field_value option list) list" where
  "section_dates (Some (ReportMd secs)) =
     map (\<lambda>sec. (sec_name sec, map (\<lambda>d. map_of d ''date'') (sec_commits sec))) secs"
| "section_dates (Some (ReportTxt secs)) =
     map (\<lambda>sec. (sec_name sec, map (\<lambda>d. map_of d ''date'') (sec_commits sec))) secs"
| "section_dates (Some (ReportJson secs)) =
     map (\<lambda>sec. (sec_name sec, map (\<lambda>d. map_of d ''date'') (sec_commits sec))) secs"
| "section_dates other = []"

section \<open>Example data\<close>

text \<open>Small values on which the theorems below are instantiated.\<close>

definition blank_commit :: Commit where
  "blank_commit =
     \<lparr>sha = [], html_url = [], message = [], author_login = None, committer_login = None,
      author_date = 0, committer_name = [], parents = [], stats_additions = 0,
      stats_deletions = 0, stats_total = 0, files = [], stats_raises = False,
      files_raises = False\<rparr>"

text \<open>A commit with the hash, the account (as author and committer), the author date and
  the parents given.\<close>

definition example_commit :: "string \<Rightarrow> string \<Rightarrow> int \<Rightarrow> string list \<Rightarrow> Commit" where
  "example_commit h who t ps =
     blank_commit\<lparr>sha := h, author_login := Some who, committer_login := Some who,
                  author_date := t, committer_name := who, parents := ps\<rparr>"

text \<open>A repository whose listings succeed and answer every query with the same commits.\<close>

definition example_repo :: "string \<Rightarrow> string \<Rightarrow> Commit list \<Rightarrow> PullRequest list \<Rightarrow> Repository" where
  "example_repo name owner cs prs =
     \<lparr>full_name = name, owner_login = owner, description = None,
      get_commits = (\<lambda>author since. Feed cs False), get_pulls = Feed prs False\<rparr>"

text \<open>A pull request of \<open>o/r\<close> with the number, the author and the update time given.\<close>

definition example_pr :: "int \<Rightarrow> string \<Rightarrow> int \<Rightarrow> PullRequest" where
  "example_pr n who t =
     \<lparr>number = n, user_login = who, updated_at = Some t, base_repo_full_name = ''o/r'',
      base_repo_owner_login = ''o'', pr_commits = Feed [] False\<rparr>"

text \<open>A commit written by \<open>alice\<close> in the web editor: the service commits it as
  \<open>web-flow\<close>, under the committer name \<open>GitHub\<close>.\<close>

definition web_commit :: Commit where
  "web_commit =
     blank_commit\<lparr>sha := ''w'', author_login := Some ''alice'',
                  committer_login := Some ''web-flow'', author_date := 5,
                  committer_name := ''GitHub'', parents := [''p'']\<rparr>"

definition web_pr :: PullRequest where
  "web_pr = (example_pr 1 ''alice'' 5)\<lparr>pr_commits := Feed [web_commit] False\<rparr>"

text \<open>A merge made by the service: two parents, committer name \<open>GitHub\<close>.\<close>

definition merge_commit :: Commit where
  "merge_commit =
     blank_commit\<lparr>sha := ''m'', author_login := Some ''alice'',
                  committer_login := Some ''web-flow'', author_date := 5,
                  committer_name := ''GitHub'', parents := [''p'', ''q'']\<rparr>"

text \<open>A service that knows the token \<open>tok\<close> of the account \<open>alice\<close> and the repository
  \<open>o/r\<close>, which has no commits and no pull requests; every directory can be made and
  every file written.\<close>

definition example_world :: world where
  "example_world =
     \<lparr>environ_GITHUB_TOKEN = None, environ_GITHUB_REPOSITORIES = None,
      get_user_login = (\<lambda>t. if t = ''tok'' then Some ''alice'' else None),
      get_repo = (\<lambda>t full. if full = ''o/r'' then Some (example_repo ''o/r'' ''o'' [] [])
                            else None),
      makedirs_ok = (\<lambda>path. True), disk = (\<lambda>path. Written)\<rparr>"

text \<open>The same, but \<open>metadata.json\<close> of the run directory cannot be opened for writing.\<close>

definition readonly_world :: world where
  "readonly_world =
     example_world\<lparr>disk := (\<lambda>path. if path = ''output/20250101_000000/metadata.json''
                                     then OpenFails else Written)\<rparr>"


text \<open>A diff generator with the default ceilings, and a commit record of \<open>o/r\<close> whose
  SHA contains a slash.\<close>

definition example_generator :: DiffGenerator where
  "example_generator =
     \<lparr>limit_files = 30, limit_lines_changed = 3000, files_dir = ''out/commits''\<rparr>"


text \<open>A changed file, and a commit record of \<open>o/r\<close> whose commit changes \<open>n\<close> files.\<close>

definition example_file :: File where
  "example_file =
     \<lparr>filename = ''f.py'', status = ''modified'', additions = 1, deletions = 0,
      patch = Some ''+x''\<rparr>"

definition record_with_files :: "nat \<Rightarrow> CommitRecord" where
  "record_with_files n =
     \<lparr>repo_full_name = ''o/r'',
      commit = (example_commit ''c'' ''alice'' 5 [''p''])
                 \<lparr>stats_total := int n, files := replicate n example_file\<rparr>\<rparr>"

text \<open>A command line that asks for the contributions of \<open>alice\<close> to \<open>o/r\<close>.\<close>

definition example_args :: args where
  "example_args =
     \<lparr>arg_username = ''alice'', arg_token = Some ''tok'', arg_repositories = Some ''o/r'',
      arg_output = ''output'', arg_fetch_pr_commits = True, arg_include_merge_commits = False,
      arg_commit_fields = [''date'', ''url'', ''message''], arg_report_formats = [''text''],
      arg_limit_download_diffs = (30, 3000)\<rparr>"

section \<open>Direct commits: the two post-filters\<close>

lemma fetch_repo_commit_records_eq:
  "fetch_repo_commit_records repo u s im ex =
     (if raises (get_commits repo u s) then []
      else map (\<lambda>c. \<lparr>repo_full_name = full_name repo, commit = c\<rparr>)
             (filter (\<lambda>c. (im \<or> length (parents c) \<le> 1)
                          \<and> (ex \<longrightarrow> committer_name c \<noteq> ''GitHub''))
                (items (get_commits repo u s))))"
  by (cases "get_commits repo u s")
     (auto simp: fetch_repo_commit_records_def Let_def intro: filter_cong)

text \<open>
  Claim C8, as the code has it. In a direct-commit listing, a commit with two parents is
  left out when \<open>include_merge_commits\<close> is false; when it is true the commit is kept
  exactly when the listing succeeds and the filter on the committer name keeps it
  (\<open>exclude_pr_merge_commits\<close> is false, or the committer name is not \<open>GitHub\<close>). The result
  without merge commits is the result with them, restricted to the commits with at most
  one parent.
\<close>

theorem include_merge_commits_restricts:
  "fetch_repo_commit_records repo u s False ex =
     filter (\<lambda>r. length (parents (commit r)) \<le> 1) (fetch_repo_commit_records repo u s True ex)
   \<and> (\<forall>c \<in> set (items (get_commits repo u s)). length (parents c) = 2 \<longrightarrow>
         \<lparr>repo_full_name = full_name repo, commit = c\<rparr>
           \<notin> set (fetch_repo_commit_records repo u s False ex)
       \<and> (\<lparr>repo_full_name = full_name repo, commit = c\<rparr>
            \<in> set (fetch_repo_commit_records repo u s True ex)
          \<longleftrightarrow> \<not> raises (get_commits repo u s) \<and> (ex \<longrightarrow> committer_name c \<noteq> ''GitHub'')))"
  by (auto simp: fetch_repo_commit_records_eq filter_map comp_def conj_commute)

theorem include_merge_commits_restricts_witness:
  "\<lparr>repo_full_name = ''o/r'', commit = example_commit ''m'' ''alice'' 5 [''p'', ''q'']\<rparr>
     \<notin> set (fetch_repo_commit_records
              (example_repo ''o/r'' ''o''
                 [example_commit ''m'' ''alice'' 5 [''p'', ''q''],
                  example_commit ''n'' ''alice'' 6 [''m'']] [])
              ''alice'' 0 False True)
   \<and> \<lparr>repo_full_name = ''o/r'', commit = example_commit ''m'' ''alice'' 5 [''p'', ''q'']\<rparr>
     \<in> set (fetch_repo_commit_records
              (example_repo ''o/r'' ''o''
                 [example_commit ''m'' ''alice'' 5 [''p'', ''q''],
                  example_commit ''n'' ''alice'' 6 [''m'']] [])
              ''alice'' 0 True True)"
proof -
  let ?m = "example_commit ''m'' ''alice'' 5 [''p'', ''q'']"
  let ?repo = "example_repo ''o/r'' ''o'' [?m, example_commit ''n'' ''alice'' 6 [''m'']] []"
  have listed: "?m \<in> set (items (get_commits ?repo ''alice'' 0))"
    by (simp add: example_repo_def)
  have two: "length (parents ?m) = 2"
    by (simp add: example_commit_def)
  have ok: "\<not> raises (get_commits ?repo ''alice'' 0)"
    by (simp add: example_repo_def)
  have name: "committer_name ?m \<noteq> ''GitHub''"
    by (simp add: example_commit_def)
  have full: "full_name ?repo = ''o/r''"
    by (simp add: example_repo_def)
  from include_merge_commits_restricts [of ?repo "''alice''" 0 True] listed two ok name
  show ?thesis
    unfolding full by blast
qed

text \<open>
  The claim as written has the two-parent commit kept whenever \<open>include_merge_commits\<close> is
  true. A merge made by the service has the committer name \<open>GitHub\<close>: with
  \<open>exclude_pr_merge_commits\<close> true it is left out under both values of the flag.
\<close>

theorem include_merge_commits_service_merge_counterexample:
  "items (get_commits (example_repo ''o/r'' ''o'' [merge_commit] []) ''alice'' 0) = [merge_commit]
   \<and> length (parents merge_commit) = 2
   \<and> fetch_repo_commit_records (example_repo ''o/r'' ''o'' [merge_commit] []) ''alice'' 0 True True
       = []
   \<and> fetch_repo_commit_records (example_repo ''o/r'' ''o'' [merge_commit] []) ''alice'' 0 False True
       = []"
  by (simp add: fetch_repo_commit_records_def example_repo_def merge_commit_def)

section \<open>Deduplication by commit SHA\<close>

lemma update_new_key: "map_of d k = None \<Longrightarrow> AList.update k v d = d @ [(k, v)]"
  by (induction d) (auto split: if_splits)

lemma unique_commit_record_values:
  assumes "\<forall>p \<in> set d. fst p = sha (commit (snd p))"
  shows "map snd (unique_commit_record x d) = keep_first (\<lambda>r. sha (commit r)) x (map snd d)"
    and "\<forall>p \<in> set (unique_commit_record x d). fst p = sha (commit (snd p))"
proof -
  have keys: "fst ` set d = (\<lambda>r. sha (commit r)) ` set (map snd d)"
    using assms by (force simp: image_iff)
  have "map_of d (sha (commit x)) = None \<longleftrightarrow> sha (commit x) \<notin> fst ` set d"
    by (simp add: map_of_eq_None_iff)
  then have none: "map_of d (sha (commit x)) = None
      \<longleftrightarrow> sha (commit x) \<notin> (\<lambda>r. sha (commit r)) ` set (map snd d)"
    using keys by simp
  show "map snd (unique_commit_record x d) = keep_first (\<lambda>r. sha (commit r)) x (map snd d)"
  proof (cases "map_of d (sha (commit x)) = None")
    case True
    with none show ?thesis
      by (simp add: unique_commit_record_def keep_first_def update_new_key)
  next
    case False
    with none show ?thesis
      by (auto simp: unique_commit_record_def keep_first_def)
  qed
  show "\<forall>p \<in> set (unique_commit_record x d). fst p = sha (commit (snd p))"
    using assms by (cases "map_of d (sha (commit x)) = None")
      (auto simp: unique_commit_record_def update_new_key)
qed

lemma fold_unique_commit_record_values:
  "\<forall>p \<in> set d. fst p = sha (commit (snd p)) \<Longrightarrow>
   map snd (fold unique_commit_record xs d) = fold (keep_first (\<lambda>r. sha (commit r))) xs (map snd d)"
proof (induction xs arbitrary: d)
  case Nil
  then show ?case by simp
next
  case (Cons x xs)
  have "map snd (fold unique_commit_record xs (unique_commit_record x d))
        = fold (keep_first (\<lambda>r. sha (commit r))) xs (map snd (unique_commit_record x d))"
    by (rule Cons.IH) (rule unique_commit_record_values(2) [OF Cons.prems])
  then show ?case
    by (simp add: unique_commit_record_values(1) [OF Cons.prems])
qed

lemma final_commit_list_fold:
  "final_commit_list direct prs = fold (keep_first (\<lambda>r. sha (commit r))) (direct @ prs) []"
  using fold_unique_commit_record_values [of "[]" "direct @ prs"]
  by (simp add: final_commit_list_def unique_commit_records_def)

lemma find_append:
  "find P (xs @ ys) = (case find P xs of Some x \<Rightarrow> Some x | None \<Rightarrow> find P ys)"
  by (induction xs) auto

lemma distinct_fold_keep_first:
  "distinct (map f vs) \<Longrightarrow> distinct (map f (fold (keep_first f) xs vs))"
  by (induction xs arbitrary: vs) (auto simp: keep_first_def)

lemma find_fold_keep_first:
  "find (\<lambda>x. f x = k) (fold (keep_first f) xs vs) =
     (case find (\<lambda>x. f x = k) vs of Some r \<Rightarrow> Some r | None \<Rightarrow> find (\<lambda>x. f x = k) xs)"
proof (induction xs arbitrary: vs)
  case Nil
  then show ?case by (simp split: option.splits)
next
  case (Cons x xs)
  show ?case
  proof (cases "f x \<in> f ` set vs")
    case True
    then have "f x = k \<Longrightarrow> find (\<lambda>x. f x = k) vs \<noteq> None"
      by (auto simp: find_None_iff)
    with True Cons.IH [of vs] show ?thesis
      by (auto simp: keep_first_def split: option.splits)
  next
    case False
    with Cons.IH [of "vs @ [x]"] show ?thesis
      by (auto simp: keep_first_def find_append split: option.splits)
  qed
qed

lemma set_fold_keep_first: "set (fold (keep_first f) xs vs) \<subseteq> set vs \<union> set xs"
proof (induction xs arbitrary: vs)
  case Nil
  then show ?case by simp
next
  case (Cons x xs)
  have "set (keep_first f x vs) \<subseteq> set vs \<union> {x}"
    by (auto simp: keep_first_def)
  with Cons.IH [of "keep_first f x vs"] show ?case
    by auto
qed

lemma length_filter_distinct_key:
  "distinct (map f xs) \<Longrightarrow> length (filter (\<lambda>x. f x = k) xs) = (if k \<in> f ` set xs then 1 else 0)"
  by (induction xs) auto

lemma find_key_None_iff: "find (\<lambda>x. f x = k) xs = None \<longleftrightarrow> k \<notin> f ` set xs"
  by (auto simp: find_None_iff)

text \<open>
  The deduplication loop on any two lists of records: the list it leaves holds no SHA
  twice, holds only records of the two lists, and for every SHA holds the record that
  comes first with that SHA in the first list followed by the second.
\<close>

lemma final_commit_list_first_wins:
  "distinct (map (\<lambda>r. sha (commit r)) (final_commit_list direct prs))
   \<and> set (final_commit_list direct prs) \<subseteq> set direct \<union> set prs
   \<and> (\<forall>h. find (\<lambda>r. sha (commit r) = h) (final_commit_list direct prs)
          = find (\<lambda>r. sha (commit r) = h) (direct @ prs))
   \<and> (\<forall>r \<in> set direct \<union> set prs.
         length (filter (\<lambda>x. sha (commit x) = sha (commit r)) (final_commit_list direct prs)) = 1)
   \<and> (\<forall>r \<in> set direct.
         find (\<lambda>x. sha (commit x) = sha (commit r)) (final_commit_list direct prs)
          = find (\<lambda>x. sha (commit x) = sha (commit r)) direct)"
proof -
  let ?key = "\<lambda>r. sha (commit r)"
  let ?out = "final_commit_list direct prs"
  have d: "distinct (map ?key ?out)"
    by (simp add: final_commit_list_fold distinct_fold_keep_first)
  have s: "set ?out \<subseteq> set direct \<union> set prs"
    using set_fold_keep_first [of ?key "direct @ prs" "[]"] by (simp add: final_commit_list_fold)
  have f: "find (\<lambda>r. ?key r = h) ?out = find (\<lambda>r. ?key r = h) (direct @ prs)" for h
    by (simp add: final_commit_list_fold find_fold_keep_first find_append)
  have keys: "?key ` set ?out = ?key ` (set direct \<union> set prs)"
  proof -
    have "k \<in> ?key ` set ?out \<longleftrightarrow> k \<in> ?key ` (set direct \<union> set prs)" for k
      using f [of k] find_key_None_iff [of ?key k ?out] find_key_None_iff [of ?key k "direct @ prs"]
      by simp
    then show ?thesis by blast
  qed
  have one: "length (filter (\<lambda>x. ?key x = ?key r) ?out) = 1" if "r \<in> set direct \<union> set prs" for r
    using that length_filter_distinct_key [OF d, of "?key r"] keys by auto
  have dir: "find (\<lambda>x. ?key x = ?key r) ?out = find (\<lambda>x. ?key x = ?key r) direct" if "r \<in> set direct" for r
  proof -
    from that have "find (\<lambda>x. ?key x = ?key r) direct \<noteq> None"
      by (auto simp: find_None_iff)
    then show ?thesis
      by (auto simp: f find_append split: option.splits)
  qed
  from d s f one dir show ?thesis by blast
qed

section \<open>Commits of a pull request\<close>

lemma scan_pr_commits_eq:
  "scan_pr_commits base u s cs acc =
     acc @ map (\<lambda>c. \<lparr>repo_full_name = base, commit = c\<rparr>)
             (filter (\<lambda>c. author_login c = Some u \<and> s \<le> author_date c \<and> length (parents c) \<le> 1) cs)"
  by (induction cs arbitrary: acc) auto

text \<open>
  Claim C2, as the code has it. For every pull request,
  \<open>fetch_user_commit_records_in_pr_after_date\<close> returns exactly those commits of the pull
  request's commit list (as far as the listing yields it) whose author login, the login of
  the account linked to the commit's author, equals the queried username, whose author
  date is at or after \<open>since\<close> and which have at most one parent; merge commits are
  dropped whatever the merge-commit flag of the run, which the function never receives;
  and every record returned carries the full name of the pull request's base repository.
\<close>

theorem pr_commits_kept_by_author_date_parents:
  "fetch_user_commit_records_in_pr_after_date pr u s =
     map (\<lambda>c. \<lparr>repo_full_name = base_repo_full_name pr, commit = c\<rparr>)
       (filter (\<lambda>c. author_login c = Some u \<and> s \<le> author_date c \<and> length (parents c) \<le> 1)
          (items (pr_commits pr)))"
  by (simp add: fetch_user_commit_records_in_pr_after_date_def scan_pr_commits_eq)

theorem pr_commits_kept_by_author_date_parents_witness:
  "fetch_user_commit_records_in_pr_after_date
     ((example_pr 1 ''alice'' 9)
        \<lparr>pr_commits := Feed [example_commit ''a'' ''alice'' 7 [''p''],
                              example_commit ''m'' ''alice'' 8 [''a'', ''q''],
                              example_commit ''b'' ''bob'' 8 [''a''],
                              example_commit ''old'' ''alice'' 2 [''p'']] False\<rparr>)
     ''alice'' 5
   = [\<lparr>repo_full_name = ''o/r'', commit = example_commit ''a'' ''alice'' 7 [''p'']\<rparr>]"
  using pr_commits_kept_by_author_date_parents
    [of "(example_pr 1 ''alice'' 9)
           \<lparr>pr_commits := Feed [example_commit ''a'' ''alice'' 7 [''p''],
                                 example_commit ''m'' ''alice'' 8 [''a'', ''q''],
                                 example_commit ''b'' ''bob'' 8 [''a''],
                                 example_commit ''old'' ''alice'' 2 [''p'']] False\<rparr>"
        "''alice''" 5]
  by (simp add: example_pr_def example_commit_def)

text \<open>
  The claim as written filters on the committer login. A commit that \<open>alice\<close> wrote in the
  web editor is committed by \<open>web-flow\<close>: it is returned for \<open>alice\<close> although its
  committer login is not \<open>alice\<close>.
\<close>

theorem pr_commits_committer_counterexample:
  "fetch_user_commit_records_in_pr_after_date web_pr ''alice'' 0
     = [\<lparr>repo_full_name = ''o/r'', commit = web_commit\<rparr>]
   \<and> items (pr_commits web_pr) = [web_commit]
   \<and> committer_login web_commit \<noteq> Some ''alice''"
  by (simp add: fetch_user_commit_records_in_pr_after_date_def web_pr_def web_commit_def
      example_pr_def blank_commit_def)

section \<open>Pull requests of a repository\<close>

lemma scan_pulls_eq:
  "scan_pulls u s prs acc =
     acc @ filter (\<lambda>p. user_login p = u) (takeWhile (updated_since s) prs)"
  by (induction prs arbitrary: acc) (auto simp: updated_since_def split: option.splits)

lemma fetch_user_pull_requests_fold:
  "fold (\<lambda>repo acc. scan_pulls u s (items (get_pulls repo)) acc) repos acc0 =
     acc0 @ concat (map (\<lambda>repo. filter (\<lambda>p. user_login p = u)
                                    (takeWhile (updated_since s) (items (get_pulls repo)))) repos)"
  by (induction repos arbitrary: acc0) (auto simp: scan_pulls_eq)

lemma fetch_user_pull_requests_in_repos_eq:
  "fetch_user_pull_requests_in_repos repos u s =
     concat (map (\<lambda>repo. filter (\<lambda>p. user_login p = u)
                            (takeWhile (updated_since s) (items (get_pulls repo)))) repos)"
  by (simp add: fetch_user_pull_requests_in_repos_def fetch_user_pull_requests_fold)

lemma takeWhile_prefix:
  "\<forall>q \<in> set pre. P q \<Longrightarrow> \<not> P p \<Longrightarrow> takeWhile P (pre @ p # rest) = pre"
  by (induction pre) auto

lemma updated_descending_takeWhile:
  "updated_descending prs \<Longrightarrow> takeWhile (updated_since s) prs = filter (updated_since s) prs"
proof (induction prs)
  case Nil
  then show ?case by simp
next
  case (Cons p prs)
  from Cons.prems have tl: "updated_descending prs"
    by (simp add: updated_descending_def)
  show ?case
  proof (cases "updated_since s p")
    case True
    with Cons.IH [OF tl] show ?thesis by simp
  next
    case False
    have "\<not> updated_since s q" if "q \<in> set prs" for q
      using Cons.prems that False
      by (auto simp: updated_descending_def updated_since_def split: option.splits)
    then have "filter (updated_since s) prs = []"
      by (simp add: filter_empty_conv)
    with False show ?thesis by simp
  qed
qed

text \<open>
  Claim C5. \<open>fetch_user_pull_requests_in_repos\<close> returns, repository by repository, the
  pull requests by the queried username within the longest prefix of the feed whose
  entries are updated at or after \<open>since\<close>. The scan stops at the first entry updated
  before \<open>since\<close>: the result is determined by the entries before that position, whatever
  follows. For a feed in descending order of update time these are all the pull requests
  of the feed by that username updated at or after \<open>since\<close>.
\<close>

theorem pull_request_scan_stops_before_since:
  "fetch_user_pull_requests_in_repos repos u s =
     concat (map (\<lambda>repo. filter (\<lambda>p. user_login p = u)
                            (takeWhile (updated_since s) (items (get_pulls repo)))) repos)
   \<and> (\<forall>pre p rest. items (get_pulls repo) = pre @ p # rest \<and> (\<forall>q \<in> set pre. updated_since s q)
          \<and> \<not> updated_since s p
        \<longrightarrow> fetch_user_pull_requests_in_repos [repo] u s = filter (\<lambda>p. user_login p = u) pre)
   \<and> (updated_descending (items (get_pulls repo))
        \<longrightarrow> fetch_user_pull_requests_in_repos [repo] u s
            = filter (\<lambda>p. user_login p = u \<and> updated_since s p) (items (get_pulls repo)))"
proof -
  have a: "fetch_user_pull_requests_in_repos [repo] u s = filter (\<lambda>p. user_login p = u) pre"
    if "items (get_pulls repo) = pre @ p # rest" "\<forall>q \<in> set pre. updated_since s q"
       "\<not> updated_since s p" for pre p rest
    using that by (simp add: fetch_user_pull_requests_in_repos_eq takeWhile_prefix)
  have b: "fetch_user_pull_requests_in_repos [repo] u s
            = filter (\<lambda>p. user_login p = u \<and> updated_since s p) (items (get_pulls repo))"
    if "updated_descending (items (get_pulls repo))"
    using that by (simp add: fetch_user_pull_requests_in_repos_eq updated_descending_takeWhile conj_commute)
  from a b show ?thesis
    by (simp add: fetch_user_pull_requests_in_repos_eq)
qed

theorem pull_request_scan_stops_before_since_witness:
  "updated_descending
     (items (get_pulls (example_repo ''o/r'' ''o'' []
        [example_pr 4 ''alice'' 10, example_pr 3 ''bob'' 8, example_pr 2 ''alice'' 3,
         example_pr 1 ''alice'' 1])))
   \<and> fetch_user_pull_requests_in_repos
       [example_repo ''o/r'' ''o'' []
          [example_pr 4 ''alice'' 10, example_pr 3 ''bob'' 8, example_pr 2 ''alice'' 3,
           example_pr 1 ''alice'' 1]] ''alice'' 5
     = [example_pr 4 ''alice'' 10]"
proof -
  let ?prs = "[example_pr 4 ''alice'' 10, example_pr 3 ''bob'' 8, example_pr 2 ''alice'' 3,
               example_pr 1 ''alice'' 1]"
  let ?repo = "example_repo ''o/r'' ''o'' [] ?prs"
  have feed: "items (get_pulls ?repo)
      = [example_pr 4 ''alice'' 10, example_pr 3 ''bob'' 8] @ example_pr 2 ''alice'' 3
          # [example_pr 1 ''alice'' 1]"
    by (simp add: example_repo_def)
  have pre: "\<forall>q \<in> set [example_pr 4 ''alice'' 10, example_pr 3 ''bob'' 8]. updated_since 5 q"
    by (simp add: updated_since_def example_pr_def)
  have stop: "\<not> updated_since 5 (example_pr 2 ''alice'' 3)"
    by (simp add: updated_since_def example_pr_def)
  have desc: "updated_descending (items (get_pulls ?repo))"
    by (simp add: updated_descending_def example_repo_def example_pr_def)
  from pull_request_scan_stops_before_since [of "[?repo]" "''alice''" 5 ?repo] feed pre stop
  have "fetch_user_pull_requests_in_repos [?repo] ''alice'' 5
          = filter (\<lambda>p. user_login p = ''alice'') [example_pr 4 ''alice'' 10, example_pr 3 ''bob'' 8]"
    by blast
  with desc show ?thesis
    by (simp add: example_pr_def)
qed

section \<open>The direct-commit stream of the aggregator\<close>

lemma process_repos_eq:
  "process_repos apis u s fp im repos (cr, pr, seen) = Inr (cr', pr', seen') \<Longrightarrow>
     cr' = cr @ concat (map (\<lambda>r. fetch_repo_commit_records r u s im fp) (processed_repos seen repos))
   \<and> pr' = pr @ (if fp then concat (map (\<lambda>r. fetch_user_pull_requests_in_repos [r] u s)
                                      (processed_repos seen repos)) else [])
   \<and> seen' = seen \<union> full_name ` set repos"
proof (induction repos arbitrary: cr pr seen)
  case Nil
  then show ?case by simp
next
  case (Cons r repos)
  show ?case
  proof (cases "full_name r \<in> seen")
    case True
    with Cons.prems have "process_repos apis u s fp im repos (cr, pr, seen) = Inr (cr', pr', seen')"
      by simp
    from Cons.IH [OF this] True show ?thesis by auto
  next
    case False
    with Cons.prems obtain api where "get_api_for_repo apis (owner_login r) = Inr api"
      by (auto split: sum.splits)
    with Cons.prems False have
      "process_repos apis u s fp im repos
         (cr @ fetch_repo_commit_records r u s im fp,
          (if fp then pr @ fetch_user_pull_requests_in_repos [r] u s else pr),
          insert (full_name r) seen) = Inr (cr', pr', seen')"
      by simp
    from Cons.IH [OF this] False show ?thesis by auto
  qed
qed

lemma processed_repos_subset: "set (processed_repos seen repos) \<subseteq> set repos"
  by (induction repos arbitrary: seen) auto

text \<open>
  Claim C4, as the code has it. When the loop over the repositories of
  \<open>process_commits_and_prs\<close> ends, the direct-commit stream is the concatenation, over the
  repositories processed, of \<open>fetch_repo_commit_records\<close> called with
  \<open>exclude_pr_merge_commits\<close> equal to \<open>fetch_pr_commits\<close>. So a listed commit whose
  committer name is \<open>GitHub\<close>, the merge identity of the service, and which a listing
  that succeeds yields and the merge-commit filter lets through (\<open>include_merge_commits\<close>
  is true, or the commit has at most one parent), is in the direct-commit stream exactly
  when PR-commit fetching is disabled.
\<close>

theorem direct_fetch_excludes_pr_merges_iff_fetching_prs:
  assumes "process_repos apis u s fp im repos ([], [], {}) = Inr (direct, pulls, names)"
  shows "direct = concat (map (\<lambda>r. fetch_repo_commit_records r u s im fp) (processed_repos {} repos))
       \<and> (\<forall>r \<in> set (processed_repos {} repos). \<forall>c \<in> set (items (get_commits r u s)).
            \<not> raises (get_commits r u s) \<and> (im \<or> length (parents c) \<le> 1)
            \<and> committer_name c = ''GitHub''
            \<longrightarrow> (\<lparr>repo_full_name = full_name r, commit = c\<rparr> \<in> set direct \<longleftrightarrow> \<not> fp))"
proof -
  from process_repos_eq [OF assms]
  have d: "direct = concat (map (\<lambda>r. fetch_repo_commit_records r u s im fp) (processed_repos {} repos))"
    by simp
  have excl: "committer_name (commit x) \<noteq> ''GitHub''" if "fp" "x \<in> set direct" for x
    using that unfolding d by (auto simp: fetch_repo_commit_records_eq split: if_splits)
  have incl: "\<lparr>repo_full_name = full_name r, commit = c\<rparr> \<in> set direct"
    if "\<not> fp" "r \<in> set (processed_repos {} repos)" "c \<in> set (items (get_commits r u s))"
       "\<not> raises (get_commits r u s)" "im \<or> length (parents c) \<le> 1" for r c
  proof -
    from that have "\<lparr>repo_full_name = full_name r, commit = c\<rparr>
        \<in> set (fetch_repo_commit_records r u s im fp)"
      by (auto simp: fetch_repo_commit_records_eq)
    with that(2) show ?thesis unfolding d by auto
  qed
  from d excl incl show ?thesis
    by (metis CommitRecord.select_convs(2))
qed

theorem direct_fetch_excludes_pr_merges_iff_fetching_prs_witness:
  "(case process_repos [(''o'', \<lparr>token = ''tok''\<rparr>)] ''alice'' 0 False False
           [example_repo ''o/r'' ''o'' [web_commit] []] ([], [], {}) of
      Inl code \<Rightarrow> False
    | Inr (direct, pulls, names) \<Rightarrow>
        \<lparr>repo_full_name = ''o/r'', commit = web_commit\<rparr> \<in> set direct)
   \<and> (case process_repos [(''o'', \<lparr>token = ''tok''\<rparr>)] ''alice'' 0 True False
           [example_repo ''o/r'' ''o'' [web_commit] []] ([], [], {}) of
      Inl code \<Rightarrow> False
    | Inr (direct, pulls, names) \<Rightarrow>
        \<lparr>repo_full_name = ''o/r'', commit = web_commit\<rparr> \<notin> set direct)"
proof -
  let ?apis = "[(''o'', \<lparr>token = ''tok''\<rparr>)]"
  let ?repo = "example_repo ''o/r'' ''o'' [web_commit] []"
  have api: "get_api_for_repo ?apis (owner_login ?repo) = Inr \<lparr>token = ''tok''\<rparr>"
    by (simp add: get_api_for_repo_def lookup_api_def example_repo_def str_lower_def
        char_lower_def)
  obtain d1 p1 n1 where run1:
    "process_repos ?apis ''alice'' 0 False False [?repo] ([], [], {}) = Inr (d1, p1, n1)"
    using api by simp
  obtain d2 p2 n2 where run2:
    "process_repos ?apis ''alice'' 0 True False [?repo] ([], [], {}) = Inr (d2, p2, n2)"
    using api by simp
  have processed: "?repo \<in> set (processed_repos {} [?repo])"
    by simp
  have listed: "web_commit \<in> set (items (get_commits ?repo ''alice'' 0))"
    and ok: "\<not> raises (get_commits ?repo ''alice'' 0)"
    and name: "full_name ?repo = ''o/r''"
    by (simp_all add: example_repo_def)
  have single: "length (parents web_commit) \<le> 1" and gh: "committer_name web_commit = ''GitHub''"
    by (simp_all add: web_commit_def)
  from ok single gh
  have kept: "\<not> raises (get_commits ?repo ''alice'' 0)
      \<and> (False \<or> length (parents web_commit) \<le> 1) \<and> committer_name web_commit = ''GitHub''"
    by simp
  from direct_fetch_excludes_pr_merges_iff_fetching_prs
         [OF run1, THEN conjunct2, rule_format, OF processed listed kept]
  have in1: "\<lparr>repo_full_name = ''o/r'', commit = web_commit\<rparr> \<in> set d1"
    unfolding name by simp
  from direct_fetch_excludes_pr_merges_iff_fetching_prs
         [OF run2, THEN conjunct2, rule_format, OF processed listed kept]
  have out2: "\<lparr>repo_full_name = ''o/r'', commit = web_commit\<rparr> \<notin> set d2"
    unfolding name by simp
  from in1 out2 show ?thesis
    unfolding run1 run2 by simp
qed

text \<open>
  The claim as written has every commit of the merge identity kept when PR-commit fetching
  is disabled. A merge made by the service has two parents: with \<open>include_merge_commits\<close>
  false, the default, the merge-commit filter drops it, and the direct-commit stream is
  empty although PR-commit fetching is disabled.
\<close>

theorem direct_fetch_service_merge_counterexample:
  "committer_name merge_commit = ''GitHub''
   \<and> items (get_commits (example_repo ''o/r'' ''o'' [merge_commit] []) ''alice'' 0) = [merge_commit]
   \<and> process_repos [(''o'', \<lparr>token = ''tok''\<rparr>)] ''alice'' 0 False False
         [example_repo ''o/r'' ''o'' [merge_commit] []] ([], [], {})
       = Inr ([], [], {''o/r''})"
proof -
  have lower: "str_lower ''o'' = ''o''"
    by code_simp
  show ?thesis
    by (simp add: get_api_for_repo_def lookup_api_def lower example_repo_def
        fetch_repo_commit_records_def merge_commit_def)
qed

section \<open>The merged collection\<close>

lemma process_prs_eq:
  "process_prs apis u s pulls (acc, seen) = Inr (acc', seen') \<Longrightarrow>
     acc' = acc @ concat (map (\<lambda>pr. fetch_user_commit_records_in_pr_after_date pr u s)
                            (processed_prs seen pulls))"
proof (induction pulls arbitrary: acc seen)
  case Nil
  then show ?case by simp
next
  case (Cons pr pulls)
  show ?case
  proof (cases "(base_repo_full_name pr, number pr) \<in> seen")
    case True
    with Cons.prems have "process_prs apis u s pulls (acc, seen) = Inr (acc', seen')"
      by simp
    from Cons.IH [OF this] True show ?thesis by simp
  next
    case False
    with Cons.prems obtain api where "get_api_for_repo apis (base_repo_owner_login pr) = Inr api"
      by (auto simp: Let_def split: sum.splits)
    with Cons.prems False have
      "process_prs apis u s pulls
         (acc @ fetch_user_commit_records_in_pr_after_date pr u s,
          insert (base_repo_full_name pr, number pr) seen) = Inr (acc', seen')"
      by (simp add: Let_def)
    from Cons.IH [OF this] False show ?thesis by simp
  qed
qed

text \<open>
  Claim C1. Let the loop over the repositories of \<open>process_commits_and_prs\<close> end with the
  direct-commit list \<open>direct\<close> (the records fetched for the repositories processed, in
  order) and the loop over the pull requests, when PR commits are fetched, with the
  PR-commit list \<open>prs\<close> (the records fetched for the pull requests processed; empty
  otherwise). Then the function returns a list that holds no SHA twice and only records of
  the two lists, and for every SHA exactly the record that comes first with that SHA in
  \<open>direct\<close> followed by \<open>prs\<close>: every record of either list is represented by exactly one
  record of its SHA, and a SHA of the direct list by its first direct-commit record, also
  when a PR-commit record shares it.
\<close>

theorem dedup_first_occurrence_wins:
  assumes "process_repos apis u s fp im repos ([], [], {}) = Inr (direct, pulls, names)"
    and "(if fp then process_prs apis u s pulls ([], {}) else Inr ([], {})) = Inr (prs, keys)"
  shows "direct = concat (map (\<lambda>r. fetch_repo_commit_records r u s im fp) (processed_repos {} repos))
     \<and> prs = (if fp then concat (map (\<lambda>pr. fetch_user_commit_records_in_pr_after_date pr u s)
                                   (processed_prs {} pulls)) else [])
     \<and> (\<exists>out. process_commits_and_prs repos apis u s fp im = Inr out
          \<and> distinct (map (\<lambda>r. sha (commit r)) out)
          \<and> set out \<subseteq> set direct \<union> set prs
          \<and> (\<forall>h. find (\<lambda>r. sha (commit r) = h) out
                 = find (\<lambda>r. sha (commit r) = h) (direct @ prs))
          \<and> (\<forall>r \<in> set direct \<union> set prs.
                length (filter (\<lambda>x. sha (commit x) = sha (commit r)) out) = 1)
          \<and> (\<forall>r \<in> set direct.
                find (\<lambda>x. sha (commit x) = sha (commit r)) out
                 = find (\<lambda>x. sha (commit x) = sha (commit r)) direct))"
proof -
  from process_repos_eq [OF assms(1)]
  have d: "direct = concat (map (\<lambda>r. fetch_repo_commit_records r u s im fp) (processed_repos {} repos))"
    by simp
  have p: "prs = (if fp then concat (map (\<lambda>pr. fetch_user_commit_records_in_pr_after_date pr u s)
                                   (processed_prs {} pulls)) else [])"
  proof (cases fp)
    case True
    with assms(2) have "process_prs apis u s pulls ([], {}) = Inr (prs, keys)" by simp
    from process_prs_eq [OF this] True show ?thesis by simp
  next
    case False
    with assms(2) show ?thesis by simp
  qed
  have run: "process_commits_and_prs repos apis u s fp im = Inr (final_commit_list direct prs)"
    using assms by (simp add: process_commits_and_prs_def)
  note first = final_commit_list_first_wins [of direct prs]
  have "\<exists>out. process_commits_and_prs repos apis u s fp im = Inr out
          \<and> distinct (map (\<lambda>r. sha (commit r)) out)
          \<and> set out \<subseteq> set direct \<union> set prs
          \<and> (\<forall>h. find (\<lambda>r. sha (commit r) = h) out
                 = find (\<lambda>r. sha (commit r) = h) (direct @ prs))
          \<and> (\<forall>r \<in> set direct \<union> set prs.
                length (filter (\<lambda>x. sha (commit x) = sha (commit r)) out) = 1)
          \<and> (\<forall>r \<in> set direct.
                find (\<lambda>x. sha (commit x) = sha (commit r)) out
                 = find (\<lambda>x. sha (commit x) = sha (commit r)) direct)"
    by (rule exI [of _ "final_commit_list direct prs"]) (intro conjI run first [THEN conjunct1]
        first [THEN conjunct2, THEN conjunct1]
        first [THEN conjunct2, THEN conjunct2, THEN conjunct1]
        first [THEN conjunct2, THEN conjunct2, THEN conjunct2, THEN conjunct1]
        first [THEN conjunct2, THEN conjunct2, THEN conjunct2, THEN conjunct2])
  with d p show ?thesis
    by (intro conjI)
qed


theorem dedup_first_occurrence_wins_witness:
  "(case process_commits_and_prs
          [example_repo ''o/r'' ''o'' [example_commit ''x'' ''alice'' 5 [''p'']]
             [(example_pr 1 ''alice'' 9)
                \<lparr>base_repo_full_name := ''o/up'',
                 pr_commits := Feed [example_commit ''x'' ''alice'' 5 [''p''],
                                     example_commit ''y'' ''alice'' 6 [''x'']] False\<rparr>]]
          [(''o'', \<lparr>token = ''tok''\<rparr>)] ''alice'' 0 True False of
      Inl code \<Rightarrow> False
    | Inr out \<Rightarrow>
        find (\<lambda>r. sha (commit r) = ''x'') out
          = Some \<lparr>repo_full_name = ''o/r'', commit = example_commit ''x'' ''alice'' 5 [''p'']\<rparr>
        \<and> find (\<lambda>r. sha (commit r) = ''y'') out
          = Some \<lparr>repo_full_name = ''o/up'', commit = example_commit ''y'' ''alice'' 6 [''x'']\<rparr>
        \<and> length (filter (\<lambda>r. sha (commit r) = ''x'') out) = 1)"
proof -
  let ?x = "example_commit ''x'' ''alice'' 5 [''p'']"
  let ?y = "example_commit ''y'' ''alice'' 6 [''x'']"
  let ?pr = "(example_pr 1 ''alice'' 9)
               \<lparr>base_repo_full_name := ''o/up'', pr_commits := Feed [?x, ?y] False\<rparr>"
  let ?repo = "example_repo ''o/r'' ''o'' [?x] [?pr]"
  let ?apis = "[(''o'', \<lparr>token = ''tok''\<rparr>)]"
  let ?d = "\<lparr>repo_full_name = ''o/r'', commit = ?x\<rparr>"
  let ?px = "\<lparr>repo_full_name = ''o/up'', commit = ?x\<rparr>"
  let ?py = "\<lparr>repo_full_name = ''o/up'', commit = ?y\<rparr>"
  have lower: "str_lower ''o'' = ''o''"
    by code_simp
  have run1: "process_repos ?apis ''alice'' 0 True False [?repo] ([], [], {})
      = Inr ([?d], [?pr], {''o/r''})"
    by (simp add: get_api_for_repo_def lookup_api_def lower example_repo_def
        fetch_repo_commit_records_def fetch_user_pull_requests_in_repos_def example_pr_def
        example_commit_def)
  have run2: "(if True then process_prs ?apis ''alice'' 0 [?pr] ([], {}) else Inr ([], {}))
      = Inr ([?px, ?py], {(''o/up'', 1)})"
    by (simp add: get_api_for_repo_def lookup_api_def lower example_pr_def
        fetch_user_commit_records_in_pr_after_date_def example_commit_def)
  from dedup_first_occurrence_wins [OF run1 run2]
  obtain out where out: "process_commits_and_prs [?repo] ?apis ''alice'' 0 True False = Inr out"
    and first: "\<forall>h. find (\<lambda>r. sha (commit r) = h) out
                  = find (\<lambda>r. sha (commit r) = h) ([?d] @ [?px, ?py])"
    and one: "\<forall>r \<in> set [?d] \<union> set [?px, ?py].
                length (filter (\<lambda>x. sha (commit x) = sha (commit r)) out) = 1"
    by blast
  have fx: "find (\<lambda>r. sha (commit r) = ''x'') out = Some ?d"
    using first [rule_format, of "''x''"] by (simp add: example_commit_def)
  have fy: "find (\<lambda>r. sha (commit r) = ''y'') out = Some ?py"
    using first [rule_format, of "''y''"] by (simp add: example_commit_def)
  have lx: "length (filter (\<lambda>r. sha (commit r) = ''x'') out) = 1"
    using one [rule_format, of ?d] by (simp add: example_commit_def)
  from fx fy lx show ?thesis
    unfolding out by simp
qed

section \<open>The token map\<close>

lemma parse_token_pair_update:
  "parse_token_pair pair tokens = AList.update (token_key pair) (token_value pair) tokens"
  by (simp add: parse_token_pair_def token_key_def token_value_def has_colon_def
      pair_owner_def pair_token_def Let_def)

lemma find_snoc:
  "find P (rev (x # xs)) = (case find P (rev xs) of Some y \<Rightarrow> Some y | None \<Rightarrow> if P x then Some x else None)"
  by (induction xs rule: rev_induct) (auto split: option.splits)

lemma last_write_lookup:
  "map_of (fold parse_token_pair ps d) k =
     (case find (\<lambda>p. token_key p = k) (rev ps) of
        Some p \<Rightarrow> Some (token_value p)
      | None \<Rightarrow> map_of d k)"
proof (induction ps arbitrary: d)
  case Nil
  then show ?case by simp
next
  case (Cons p ps)
  have "map_of (fold parse_token_pair (p # ps) d) k =
          (case find (\<lambda>p. token_key p = k) (rev ps) of
             Some q \<Rightarrow> Some (token_value q)
           | None \<Rightarrow> map_of (parse_token_pair p d) k)"
    using Cons.IH [of "parse_token_pair p d"] by simp
  also have "\<dots> = (case find (\<lambda>p. token_key p = k) (rev (p # ps)) of
                     Some q \<Rightarrow> Some (token_value q)
                   | None \<Rightarrow> map_of d k)"
    unfolding find_snoc
    by (auto simp: parse_token_pair_update update_conv' split: option.splits)
  finally show ?case .
qed

lemma distinct_fold_parse_token_pair:
  "distinct (map fst d) \<Longrightarrow> distinct (map fst (fold parse_token_pair ps d))"
  by (induction ps arbitrary: d) (simp_all add: parse_token_pair_update distinct_update)

lemma parse_token_map_lookup:
  "map_of (parse_token_map s) k =
     map_option token_value (find (\<lambda>p. token_key p = k) (rev (str_split CHR '','' s)))"
  by (simp add: parse_token_map_def last_write_lookup split: option.splits)

lemma find_cong_set: "(\<And>x. x \<in> set xs \<Longrightarrow> P x = Q x) \<Longrightarrow> find P xs = find Q xs"
  by (induction xs) auto

lemma str_split_nonempty: "str_split c s \<noteq> []"
  by (induction s) (auto split: list.splits)

lemma str_split_no_sep: "c \<notin> set s \<Longrightarrow> str_split c s = [s]"
  by (induction s) auto

lemma default_literal: "str_lower (str_strip ''_default'') = ''_default''"
  by code_simp

lemma pair_owner_default_literal: "pair_owner (''_default:'' @ tok) = ''_default''"
  using default_literal by (simp add: pair_owner_def)

lemma pair_token_default_literal: "pair_token (''_default:'' @ tok) = str_strip tok"
  by (simp add: pair_token_def)

lemma has_colon_default_literal: "has_colon (''_default:'' @ tok)"
  by (simp add: has_colon_def)

text \<open>
  Claim C6, as the code has it. The keys of \<open>parse_token_map\<close> are distinct. An owner other
  than the sentinel \<open>_default\<close> is mapped to the trimmed token of the last pair whose
  trimmed, lowercased owner name it is. When no pair has an owner name that trims and
  lowercases to \<open>_default\<close>, the sentinel key holds the last bare token, trimmed, so that of
  several bare tokens only the last is kept, and with pairs only and no bare token the
  default slot is empty.
\<close>

theorem parse_token_map_last_write_wins:
  "distinct (map fst (parse_token_map s))
   \<and> (\<forall>k. k \<noteq> ''_default'' \<longrightarrow>
          map_of (parse_token_map s) k
            = map_option pair_token
                (find (\<lambda>p. has_colon p \<and> pair_owner p = k) (rev (str_split CHR '','' s))))
   \<and> ((\<forall>p \<in> set (str_split CHR '','' s). has_colon p \<longrightarrow> pair_owner p \<noteq> ''_default'') \<longrightarrow>
          map_of (parse_token_map s) ''_default''
            = map_option str_strip (find (\<lambda>p. \<not> has_colon p) (rev (str_split CHR '','' s)))
        \<and> ((\<forall>p \<in> set (str_split CHR '','' s). has_colon p) \<longrightarrow>
              map_of (parse_token_map s) ''_default'' = None))"
proof -
  let ?ps = "rev (str_split CHR '','' s)"
  have d: "distinct (map fst (parse_token_map s))"
    by (simp add: parse_token_map_def distinct_fold_parse_token_pair)
  have owner: "map_of (parse_token_map s) k
      = map_option pair_token (find (\<lambda>p. has_colon p \<and> pair_owner p = k) ?ps)"
    if "k \<noteq> ''_default''" for k
  proof -
    have "find (\<lambda>p. token_key p = k) ?ps = find (\<lambda>p. has_colon p \<and> pair_owner p = k) ?ps"
      using that by (intro find_cong_set) (auto simp: token_key_def)
    moreover have "map_option token_value (find (\<lambda>p. has_colon p \<and> pair_owner p = k) ?ps)
        = map_option pair_token (find (\<lambda>p. has_colon p \<and> pair_owner p = k) ?ps)"
      by (cases "find (\<lambda>p. has_colon p \<and> pair_owner p = k) ?ps")
         (auto simp: token_value_def dest: find_Some_iff [THEN iffD1])
    ultimately show ?thesis
      by (simp add: parse_token_map_lookup)
  qed
  have bare: "map_of (parse_token_map s) ''_default''
      = map_option str_strip (find (\<lambda>p. \<not> has_colon p) ?ps)"
    if "\<forall>p \<in> set (str_split CHR '','' s). has_colon p \<longrightarrow> pair_owner p \<noteq> ''_default''"
  proof -
    have "find (\<lambda>p. token_key p = ''_default'') ?ps = find (\<lambda>p. \<not> has_colon p) ?ps"
      using that by (intro find_cong_set) (auto simp: token_key_def)
    moreover have "map_option token_value (find (\<lambda>p. \<not> has_colon p) ?ps)
        = map_option str_strip (find (\<lambda>p. \<not> has_colon p) ?ps)"
      by (cases "find (\<lambda>p. \<not> has_colon p) ?ps")
         (auto simp: token_value_def dest: find_Some_iff [THEN iffD1])
    ultimately show ?thesis
      by (simp add: parse_token_map_lookup)
  qed
  have none: "find (\<lambda>p. \<not> has_colon p) ?ps = None"
    if "\<forall>p \<in> set (str_split CHR '','' s). has_colon p"
    using that by (simp add: find_None_iff)
  from d owner bare none show ?thesis
    by simp
qed

theorem parse_token_map_last_write_wins_witness:
  "map_of (parse_token_map ''Acme: t1 ,b1,acme:t2, b2 '') ''acme'' = Some ''t2''
   \<and> map_of (parse_token_map ''Acme: t1 ,b1,acme:t2, b2 '') ''_default'' = Some ''b2''
   \<and> map_of (parse_token_map ''a:x,b:y'') ''_default'' = None"
proof -
  let ?s = "''Acme: t1 ,b1,acme:t2, b2 ''"
  have pieces: "str_split CHR '','' ?s = [''Acme: t1 '', ''b1'', ''acme:t2'', '' b2 '']"
    by code_simp
  have colons: "has_colon ''Acme: t1 ''" "\<not> has_colon ''b1''" "has_colon ''acme:t2''"
    "\<not> has_colon '' b2 ''"
    by (simp_all add: has_colon_def)
  have owners: "pair_owner ''Acme: t1 '' = ''acme''" "pair_owner ''acme:t2'' = ''acme''"
    by code_simp+
  have vals: "pair_token ''acme:t2'' = ''t2''" "str_strip '' b2 '' = ''b2''"
    by code_simp+
  have scoped: "\<forall>p \<in> set (str_split CHR '','' ?s). has_colon p \<longrightarrow> pair_owner p \<noteq> ''_default''"
    unfolding pieces using colons owners by simp
  have pieces2: "str_split CHR '','' ''a:x,b:y'' = [''a:x'', ''b:y'']"
    by code_simp
  have colons2: "has_colon ''a:x''" "has_colon ''b:y''"
    by (simp_all add: has_colon_def)
  have owners2: "pair_owner ''a:x'' = ''a''" "pair_owner ''b:y'' = ''b''"
    by code_simp+
  have scoped2: "\<forall>p \<in> set (str_split CHR '','' ''a:x,b:y''). has_colon p \<longrightarrow> pair_owner p \<noteq> ''_default''"
    unfolding pieces2 using owners2 by simp
  have all2: "\<forall>p \<in> set (str_split CHR '','' ''a:x,b:y''). has_colon p"
    unfolding pieces2 using colons2 by simp
  have acme: "map_of (parse_token_map ?s) ''acme'' = Some ''t2''"
    using parse_token_map_last_write_wins [of ?s, THEN conjunct2, THEN conjunct1, rule_format,
        of "''acme''"]
    unfolding pieces using colons owners vals by simp
  have dflt: "map_of (parse_token_map ?s) ''_default'' = Some ''b2''"
    using parse_token_map_last_write_wins [of ?s, THEN conjunct2, THEN conjunct2, THEN mp,
        OF scoped, THEN conjunct1]
    unfolding pieces using colons vals by simp
  have none: "map_of (parse_token_map ''a:x,b:y'') ''_default'' = None"
    using parse_token_map_last_write_wins [of "''a:x,b:y''", THEN conjunct2, THEN conjunct2,
        THEN mp, OF scoped2, THEN conjunct2, THEN mp, OF all2] .
  from acme dflt none show ?thesis
    by simp
qed

text \<open>
  Without the proviso the last part of the claim fails: \<open>_default:tok\<close> is one
  \<open>owner:token\<close> pair and no bare token, and the default slot holds \<open>tok\<close>.
\<close>

theorem parse_token_map_default_slot_counterexample:
  "str_split CHR '','' ''_default:tok'' = [''_default:tok'']
   \<and> has_colon ''_default:tok''
   \<and> map_of (parse_token_map ''_default:tok'') ''_default'' = Some ''tok''"
proof -
  have "str_split CHR '','' ''_default:tok'' = [''_default:tok'']"
    by code_simp
  moreover have "has_colon ''_default:tok''"
    by (simp add: has_colon_def)
  moreover have "parse_token_map ''_default:tok'' = [(''_default'', ''tok'')]"
    by code_simp
  ultimately show ?thesis
    by simp
qed

lemma init_owner_api_other_key:
  "fst entry \<noteq> k \<Longrightarrow> map_of (init_owner_api w entry apis) k = map_of apis k"
  by (cases entry) (auto simp: init_owner_api_def update_conv' split: option.splits)

lemma fold_init_owner_api_other_key:
  "k \<notin> fst ` set tm \<Longrightarrow> map_of (fold (init_owner_api w) tm apis) k = map_of apis k"
  by (induction tm arbitrary: apis) (auto simp: init_owner_api_other_key)

lemma initialize_apis_default_slot:
  assumes "initialize_apis w tm = Inr apis"
  shows "map_of apis ''_default'' =
           (case map_of tm ''_default'' of
              None \<Rightarrow> None
            | Some t \<Rightarrow> if t = [] then None else Some \<lparr>token = t\<rparr>)"
proof -
  have nokey: "''_default'' \<notin> fst ` set (AList.delete ''_default'' tm)"
    by (auto simp: AList.delete_eq)
  note keep = fold_init_owner_api_other_key [OF nokey]
  show ?thesis
  proof (cases "map_of tm ''_default''")
    case None
    with assms keep show ?thesis
      by (auto simp: initialize_apis_def dict_pop_def init_default_api_def)
  next
    case (Some t)
    show ?thesis
    proof (cases "t = []")
      case True
      with Some assms keep show ?thesis
        by (auto simp: initialize_apis_def dict_pop_def init_default_api_def)
    next
      case False
      with Some assms keep show ?thesis
        by (auto simp: initialize_apis_def dict_pop_def init_default_api_def new_GitHubAPI_def
            update_conv' split: option.splits if_splits)
    qed
  qed
qed

text \<open>
  Claim C10. A pair whose owner is literally \<open>_default\<close> writes the key that a bare token
  writes. The default slot of the token map holds the value of the last piece that is a
  bare token or a pair of the owner \<open>_default\<close>, so the two override each other, the later
  one winning. \<open>initialize_apis\<close> cannot tell \<open>_default:tok\<close> from the bare \<open>tok\<close>, and
  whenever it returns, the client under \<open>_default\<close> is the one built from the default slot
  (none when the slot is missing or empty), never a client of the loop over the owners.
\<close>

theorem default_named_owner_takes_default_slot:
  "parse_token_pair (''_default:'' @ tok) tokens = AList.update ''_default'' (str_strip tok) tokens
   \<and> (\<not> has_colon bare \<longrightarrow>
        parse_token_pair bare tokens = AList.update ''_default'' (str_strip bare) tokens)
   \<and> map_of (parse_token_map s) ''_default''
       = map_option token_value
           (find (\<lambda>p. \<not> has_colon p \<or> pair_owner p = ''_default'') (rev (str_split CHR '','' s)))
   \<and> (CHR '':'' \<notin> set tok \<and> CHR '','' \<notin> set tok \<longrightarrow>
        parse_token_map (''_default:'' @ tok) = parse_token_map tok
        \<and> initialize_apis w (parse_token_map (''_default:'' @ tok))
            = initialize_apis w (parse_token_map tok))
   \<and> (\<forall>apis. initialize_apis w (parse_token_map s) = Inr apis \<longrightarrow>
        map_of apis ''_default''
          = (case map_of (parse_token_map s) ''_default'' of
               None \<Rightarrow> None
             | Some t \<Rightarrow> if t = [] then None else Some \<lparr>token = t\<rparr>))"
proof -
  have a: "parse_token_pair (''_default:'' @ tok) d
      = AList.update ''_default'' (str_strip tok) d" for d
    unfolding parse_token_pair_update token_key_def token_value_def
    by (simp only: has_colon_default_literal pair_owner_default_literal
        pair_token_default_literal if_True)
  have b: "parse_token_pair x d = AList.update ''_default'' (str_strip x) d"
    if "\<not> has_colon x" for x d
    using that by (simp add: parse_token_pair_update token_key_def token_value_def)
  have c: "map_of (parse_token_map s) ''_default''
       = map_option token_value
           (find (\<lambda>p. \<not> has_colon p \<or> pair_owner p = ''_default'') (rev (str_split CHR '','' s)))"
  proof -
    have "find (\<lambda>p. token_key p = ''_default'') (rev (str_split CHR '','' s))
        = find (\<lambda>p. \<not> has_colon p \<or> pair_owner p = ''_default'') (rev (str_split CHR '','' s))"
      by (intro find_cong_set) (auto simp: token_key_def)
    then show ?thesis
      by (simp add: parse_token_map_lookup)
  qed
  have d: "parse_token_map (''_default:'' @ tok) = parse_token_map tok"
    if "CHR '':'' \<notin> set tok" "CHR '','' \<notin> set tok"
  proof -
    from that have "str_split CHR '','' (''_default:'' @ tok) = [''_default:'' @ tok]"
      by (intro str_split_no_sep) simp
    moreover from that have "str_split CHR '','' tok = [tok]"
      by (intro str_split_no_sep)
    moreover from that have "\<not> has_colon tok"
      by (simp add: has_colon_def)
    ultimately show ?thesis
      using a [of "[]"] b [of tok "[]"]
      by (simp add: parse_token_map_def del: AList.update.simps)
  qed
  from a b c d initialize_apis_default_slot [of w "parse_token_map s"] show ?thesis
    by (simp del: AList.update.simps)
qed

theorem default_named_owner_takes_default_slot_witness:
  "map_of (parse_token_map ''b,_default:a'') ''_default'' = Some ''a''
   \<and> map_of (parse_token_map ''_default:a,b'') ''_default'' = Some ''b''
   \<and> initialize_apis example_world (parse_token_map ''_default:tok'')
       = initialize_apis example_world (parse_token_map ''tok'')
   \<and> initialize_apis example_world (parse_token_map ''_default:tok'')
       = Inr [(''alice'', \<lparr>token = ''tok''\<rparr>), (''_default'', \<lparr>token = ''tok''\<rparr>)]"
proof -
  have p1: "str_split CHR '','' ''b,_default:a'' = [''b'', ''_default:a'']"
    and p2: "str_split CHR '','' ''_default:a,b'' = [''_default:a'', ''b'']"
    by code_simp+
  have c: "\<not> has_colon ''b''" "has_colon ''_default:a''"
    by (simp_all add: has_colon_def)
  have o: "pair_owner ''_default:a'' = ''_default''"
    by code_simp
  have v: "token_value ''_default:a'' = ''a''" "token_value ''b'' = ''b''"
    by code_simp+
  have a: "map_of (parse_token_map ''b,_default:a'') ''_default'' = Some ''a''"
    using default_named_owner_takes_default_slot
            [of "''tok''" "[]" "''b''" "''b,_default:a''" example_world,
             THEN conjunct2, THEN conjunct2, THEN conjunct1]
    unfolding p1 using c o v by simp
  have b: "map_of (parse_token_map ''_default:a,b'') ''_default'' = Some ''b''"
    using default_named_owner_takes_default_slot
            [of "''tok''" "[]" "''b''" "''_default:a,b''" example_world,
             THEN conjunct2, THEN conjunct2, THEN conjunct1]
    unfolding p2 using c o v by simp
  have plain: "CHR '':'' \<notin> set ''tok'' \<and> CHR '','' \<notin> set ''tok''"
    by simp
  have same: "initialize_apis example_world (parse_token_map (''_default:'' @ ''tok''))
       = initialize_apis example_world (parse_token_map ''tok'')"
    using default_named_owner_takes_default_slot
            [of "''tok''" "[]" "''b''" "''tok''" example_world,
             THEN conjunct2, THEN conjunct2, THEN conjunct2, THEN conjunct1, THEN mp,
             OF plain, THEN conjunct2] .
  have run: "initialize_apis example_world (parse_token_map ''tok'')
       = Inr [(''alice'', \<lparr>token = ''tok''\<rparr>), (''_default'', \<lparr>token = ''tok''\<rparr>)]"
    by code_simp
  from a b same run show ?thesis
    by simp
qed

section \<open>The diff archiver\<close>

lemma walk_files_exceeded:
  "snd (walk_files lim fs n) \<longleftrightarrow> fs \<noteq> [] \<and> lim < n + int (length fs)"
  by (induction fs arbitrary: n) auto


lemma save_commit_diff_stats_raises:
  "stats_raises (commit r) \<Longrightarrow> save_commit_diff w gen r (fs, n) = Inl fs"
  by (simp add: save_commit_diff_def)

lemma save_commit_diff_files_raises:
  assumes "\<not> stats_raises (commit r)" and "files_raises (commit r)"
    and "stats_total (commit r) \<le> limit_lines_changed gen"
    and "files (commit r) = [] \<or> int (length (files (commit r))) \<le> limit_files gen"
  shows "save_commit_diff w gen r (fs, n) = Inl fs"
proof -
  obtain k e where w: "walk_files (limit_files gen) (files (commit r)) 0 = (k, e)"
    by (cases "walk_files (limit_files gen) (files (commit r)) 0")
  from walk_files_exceeded [of "limit_files gen" "files (commit r)" 0] w assms(4)
  have "\<not> e" by auto
  with assms w show ?thesis
    by (simp add: save_commit_diff_def)
qed






text \<open>
  The two ceilings at \<open>-1\<close>, on a commit without changed files and without changed lines:
  the lines ceiling skips the commit, the files ceiling does not, since the walk that
  checks it has no file to visit.
\<close>

lemma negative_files_ceiling:
  "save_commit_diff example_world (example_generator\<lparr>limit_files := - 1\<rparr>)
     (record_with_files 0) (Map.empty, 0)
   = Inr (Map.empty(''out/commits/c.diff'' \<mapsto> DiffFile []), 1)
   \<and> save_commit_diff example_world (example_generator\<lparr>limit_lines_changed := - 1\<rparr>)
     (record_with_files 0) (Map.empty, 0)
   = Inr (Map.empty, 0)"
proof -
  have name: "last (str_split CHR ''/'' ''o/r'') = ''r''"
    by code_simp
  show ?thesis
    by (simp add: save_commit_diff_def name example_world_def example_generator_def
        record_with_files_def example_commit_def blank_commit_def diff_path_def path_join_def
        diff_body_def)
qed

section \<open>The report renderer\<close>

text \<open>
  The text and the markdown report take their headings from
  \<open>sorted(all_repos_full_names)\<close>; the JSON report iterates over the dictionary and has
  them in the order in which the repositories first occur in the commit records. Under
  every heading, in every format, the commits are in ascending order of author date.
\<close>

lemma map_filter_all_Some:
  "(\<And>x. x \<in> set xs \<Longrightarrow> f x = Some (g x)) \<Longrightarrow> List.map_filter f xs = map g xs"
  by (induction xs) (simp_all add:)

lemma sorted_sections_names:
  "map sec_name (sorted_sections gen descs by_repo) = sorted_list_of_set (set (map fst by_repo))"
proof -
  let ?names = "sorted_list_of_set (set (map fst by_repo))"
  let ?sec = "\<lambda>name. \<lparr>sec_name = name, sec_description = map_of descs name,
                       sec_commits = map (build_commit_data gen) (the (map_of by_repo name))\<rparr>"
  have "sorted_sections gen descs by_repo = map ?sec ?names"
    unfolding sorted_sections_def
  proof (rule map_filter_all_Some)
    fix name assume "name \<in> set ?names"
    then have "name \<in> fst ` set by_repo" by simp
    then obtain cs where "map_of by_repo name = Some cs"
      by (metis map_of_eq_None_iff not_Some_eq)
    then show "(case map_of by_repo name of None \<Rightarrow> None
                | Some cs \<Rightarrow> Some \<lparr>sec_name = name, sec_description = map_of descs name,
                                   sec_commits = map (build_commit_data gen) cs\<rparr>)
               = Some (?sec name)"
      by simp
  qed
  then show ?thesis
    by (simp add: comp_def)
qed

lemma sorted_sections_alphabetical:
  "sorted (map sec_name (sorted_sections gen descs by_repo))
   \<and> distinct (map sec_name (sorted_sections gen descs by_repo))"
  by (simp add: sorted_sections_names)

lemma json_report_data_names:
  "map sec_name (json_report_data gen descs by_repo) = map fst by_repo"
  by (induction by_repo) (auto simp: json_report_data_def)

lemma groups_sorted_by_date:
  "(name, cs) \<in> set (commits_by_repo_full_name rs) \<Longrightarrow> sorted (map author_date cs)"
  by (auto simp: commits_by_repo_full_name_def sort_groups_def)

lemma dict_append_keys:
  "map fst (dict_append k x d) = keep_first id k (map fst d)"
  by (induction d) (auto simp: dict_append_def keep_first_def)

lemma group_commits_keys_fold:
  "map fst (fold (\<lambda>r d. dict_append (repo_full_name r) (commit r) d) rs d) =
     fold (keep_first id) (map repo_full_name rs) (map fst d)"
  by (induction rs arbitrary: d) (simp_all add: dict_append_keys)

lemma json_report_insertion_order:
  "map sec_name (json_report_data gen descs (commits_by_repo_full_name rs)) =
     fold (keep_first id) (map repo_full_name rs) []"
  using group_commits_keys_fold [of rs "[]"]
  by (simp add: json_report_data_names commits_by_repo_full_name_def sort_groups_def
      group_commits_def comp_def case_prod_unfold)

text \<open>
  Claim C3 says that every format orders the repository groups alphabetically by full
  name. For commit records of \<open>b/x\<close>, \<open>a/y\<close> and \<open>b/x\<close> again, the commits are grouped by
  repository and sorted by date in both files, and the text report has \<open>a/y\<close> before
  \<open>b/x\<close>, but the JSON report has \<open>b/x\<close> before \<open>a/y\<close>.
\<close>

theorem json_report_groups_in_first_seen_order:
  "section_dates
     (generate_reports (new_ReportGenerator ''out'' None)
        [\<lparr>repo_full_name = ''b/x'', commit = example_commit ''c1'' ''alice'' 9 [''p'']\<rparr>,
         \<lparr>repo_full_name = ''a/y'', commit = example_commit ''c2'' ''alice'' 6 [''q'']\<rparr>,
         \<lparr>repo_full_name = ''b/x'', commit = example_commit ''c3'' ''alice'' 3 [''r'']\<rparr>]
        None (Some [''text'', ''json'']) Map.empty ''out/report.json'')
     = [(''b/x'', [Some (FDate 3), Some (FDate 9)]), (''a/y'', [Some (FDate 6)])]
   \<and> section_dates
     (generate_reports (new_ReportGenerator ''out'' None)
        [\<lparr>repo_full_name = ''b/x'', commit = example_commit ''c1'' ''alice'' 9 [''p'']\<rparr>,
         \<lparr>repo_full_name = ''a/y'', commit = example_commit ''c2'' ''alice'' 6 [''q'']\<rparr>,
         \<lparr>repo_full_name = ''b/x'', commit = example_commit ''c3'' ''alice'' 3 [''r'']\<rparr>]
        None (Some [''text'', ''json'']) Map.empty ''out/report.txt'')
     = [(''a/y'', [Some (FDate 6)]), (''b/x'', [Some (FDate 3), Some (FDate 9)])]
   \<and> \<not> sorted [''b/x'', ''a/y'']"
  by code_simp

section \<open>The run\<close>

lemma init_default_api_code: "init_default_api w t = Inl c \<Longrightarrow> c = 1"
  by (auto simp: init_default_api_def split: option.splits if_splits)

lemma initialize_apis_code: "initialize_apis w tm = Inl c \<Longrightarrow> c = 1"
  by (auto simp: initialize_apis_def dict_pop_def Let_def split: sum.splits prod.splits
      dest: init_default_api_code)

lemma fetch_repositories_from_code:
  "fetch_repositories_from w apis by_owner repos = Inl c \<Longrightarrow> c = 1"
  by (induction w apis by_owner repos rule: fetch_repositories_from.induct)
     (auto split: option.splits)

lemma get_api_for_repo_code: "get_api_for_repo apis owner = Inl c \<Longrightarrow> c = 1"
  by (auto simp: get_api_for_repo_def split: option.splits)

lemma process_repos_code:
  "process_repos apis u s fp im repos st = Inl c \<Longrightarrow> c = 1"
  by (induction apis u s fp im repos st rule: process_repos.induct)
     (auto split: if_splits sum.splits dest: get_api_for_repo_code)

lemma process_prs_code:
  "process_prs apis u s prs st = Inl c \<Longrightarrow> c = 1"
  by (induction apis u s prs st rule: process_prs.induct)
     (auto simp: Let_def split: if_splits sum.splits dest: get_api_for_repo_code)

lemma process_commits_and_prs_code:
  "process_commits_and_prs repos apis u s fp im = Inl c \<Longrightarrow> c = 1"
  by (auto simp: process_commits_and_prs_def split: sum.splits prod.splits if_splits
      dest: process_repos_code process_prs_code)

text \<open>
  Claim C9, as the code has it. When the run gets as far as \<open>process_commits_and_prs\<close> and
  the deduplicated list it returns is empty, the run ends with \<open>sys.exit(0)\<close>. The write of
  \<open>metadata.json\<close> has been attempted before: the output tree is the one before the run
  with \<open>metadata.json\<close> added, which records the username, the repository list and the
  since-date, unless that write failed, which \<open>save_metadata\<close> catches and logs; then
  \<open>metadata.json\<close> is missing or incomplete. No report file and no diff file is written.
\<close>

theorem empty_result_exits_zero_after_metadata:
  assumes "or_environ (arg_token a) (environ_GITHUB_TOKEN w) \<noteq> []"
    and "initialize_apis w (parse_token_map (or_environ (arg_token a) (environ_GITHUB_TOKEN w)))
           = Inr apis"
    and "apis \<noteq> []"
    and "parse_repo_list (or_environ (arg_repositories a) (environ_GITHUB_REPOSITORIES w)) = names"
    and "names \<noteq> []"
    and "makedirs_ok w (path_join (arg_output a) ts)"
    and "fetch_repositories w apis (group_repos_by_owner names) = Inr repos"
    and "repos \<noteq> []"
    and "process_commits_and_prs repos apis (arg_username a) since
           (arg_fetch_pr_commits a) (arg_include_merge_commits a) = Inr []"
  shows "main w a since ts fs =
           ((case disk w (path_join (path_join (arg_output a) ts) ''metadata.json'') of
               Written \<Rightarrow>
                 fs(path_join (path_join (arg_output a) ts) ''metadata.json''
                      \<mapsto> MetadataJson (arg_username a) names since)
             | OpenFails \<Rightarrow> fs
             | WriteFails \<Rightarrow>
                 fs(path_join (path_join (arg_output a) ts) ''metadata.json'' \<mapsto> Incomplete)),
            SysExit 0)"
  using assms
  by (cases "disk w (path_join (path_join (arg_output a) ts) ''metadata.json'')")
     (simp_all add: main_def Let_def save_metadata_def)

theorem empty_result_exits_zero_after_metadata_witness:
  "main example_world example_args 100 ''20250101_000000'' Map.empty =
     (Map.empty(''output/20250101_000000/metadata.json''
        \<mapsto> MetadataJson ''alice'' [''o/r''] 100),
      SysExit 0)"
proof -
  let ?apis = "[(''alice'', \<lparr>token = ''tok''\<rparr>), (''_default'', \<lparr>token = ''tok''\<rparr>)]"
  let ?repos = "[example_repo ''o/r'' ''o'' [] []]"
  have tok: "or_environ (arg_token example_args) (environ_GITHUB_TOKEN example_world) = ''tok''"
    by (simp add: or_environ_def example_args_def)
  have rep: "or_environ (arg_repositories example_args) (environ_GITHUB_REPOSITORIES example_world)
      = ''o/r''"
    by (simp add: or_environ_def example_args_def)
  have h1: "or_environ (arg_token example_args) (environ_GITHUB_TOKEN example_world) \<noteq> []"
    unfolding tok by simp
  have h2: "initialize_apis example_world
      (parse_token_map (or_environ (arg_token example_args) (environ_GITHUB_TOKEN example_world)))
      = Inr ?apis"
    unfolding tok by code_simp
  have h3: "?apis \<noteq> []"
    by simp
  have h4: "parse_repo_list
      (or_environ (arg_repositories example_args) (environ_GITHUB_REPOSITORIES example_world))
      = [''o/r'']"
    unfolding rep by code_simp
  have h5: "[''o/r''] \<noteq> []"
    by simp
  have out: "path_join (path_join (arg_output example_args) ''20250101_000000'') ''metadata.json''
      = ''output/20250101_000000/metadata.json''"
    and dir: "path_join (arg_output example_args) ''20250101_000000'' = ''output/20250101_000000''"
    by (simp_all add: path_join_def example_args_def)
  have h6: "makedirs_ok example_world (path_join (arg_output example_args) ''20250101_000000'')"
    by (simp add: example_world_def)
  have owners: "group_repos_by_owner [''o/r''] = [(''o'', [''o/r''])]"
    by code_simp
  have h7: "fetch_repositories example_world ?apis (group_repos_by_owner [''o/r'']) = Inr ?repos"
    unfolding owners
    by (simp add: fetch_repositories_def lookup_api_def fetch_repo_by_full_name_def
        example_world_def)
  have h8: "?repos \<noteq> []"
    by simp
  have lower: "str_lower ''o'' = ''o''"
    by code_simp
  have h9: "process_commits_and_prs ?repos ?apis (arg_username example_args) 100
      (arg_fetch_pr_commits example_args) (arg_include_merge_commits example_args) = Inr []"
    by (simp add: process_commits_and_prs_def get_api_for_repo_def lookup_api_def lower
        example_repo_def example_args_def fetch_repo_commit_records_def
        fetch_user_pull_requests_in_repos_def final_commit_list_def unique_commit_records_def)
  have user: "arg_username example_args = ''alice''"
    by (simp add: example_args_def)
  have written: "disk example_world ''output/20250101_000000/metadata.json'' = Written"
    by (simp add: example_world_def)
  from empty_result_exits_zero_after_metadata [OF h1 h2 h3 h4 h5 h6 h7 h8 h9, of Map.empty]
  show ?thesis
    unfolding out user written by simp
qed

text \<open>
  The claim as written has \<open>metadata.json\<close> written whenever the run ends so. Where the file
  cannot be opened, the run still ends with \<open>sys.exit(0)\<close>, and the output tree is empty.
\<close>

theorem empty_result_without_metadata_counterexample:
  "main readonly_world example_args 100 ''20250101_000000'' Map.empty = (Map.empty, SysExit 0)"
proof -
  let ?apis = "[(''alice'', \<lparr>token = ''tok''\<rparr>), (''_default'', \<lparr>token = ''tok''\<rparr>)]"
  let ?repos = "[example_repo ''o/r'' ''o'' [] []]"
  have env: "environ_GITHUB_TOKEN readonly_world = None"
    "environ_GITHUB_REPOSITORIES readonly_world = None"
    by (simp_all add: readonly_world_def example_world_def)
  have tok: "or_environ (arg_token example_args) None = ''tok''"
    and rep: "or_environ (arg_repositories example_args) None = ''o/r''"
    by (simp_all add: or_environ_def example_args_def)
  have apis: "initialize_apis readonly_world (parse_token_map ''tok'') = Inr ?apis"
    by code_simp
  have names: "parse_repo_list ''o/r'' = [''o/r'']"
    by code_simp
  have dir: "path_join (arg_output example_args) ''20250101_000000'' = ''output/20250101_000000''"
    and mfile: "path_join ''output/20250101_000000'' ''metadata.json''
      = ''output/20250101_000000/metadata.json''"
    by (simp_all add: path_join_def example_args_def)
  have made: "makedirs_ok readonly_world ''output/20250101_000000''"
    and closed: "disk readonly_world ''output/20250101_000000/metadata.json'' = OpenFails"
    by (simp_all add: readonly_world_def example_world_def)
  have meta: "save_metadata readonly_world ''output/20250101_000000'' (arg_username example_args)
      [''o/r''] 100 Map.empty = Inr Map.empty"
    by (simp add: save_metadata_def made mfile closed)
  have owners: "group_repos_by_owner [''o/r''] = [(''o'', [''o/r''])]"
    by code_simp
  have repos: "fetch_repositories readonly_world ?apis [(''o'', [''o/r''])] = Inr ?repos"
    by (simp add: fetch_repositories_def lookup_api_def fetch_repo_by_full_name_def
        readonly_world_def example_world_def)
  have lower: "str_lower ''o'' = ''o''"
    by code_simp
  have none: "process_commits_and_prs ?repos ?apis (arg_username example_args) 100
      (arg_fetch_pr_commits example_args) (arg_include_merge_commits example_args) = Inr []"
    by (simp add: process_commits_and_prs_def get_api_for_repo_def lookup_api_def lower
        example_repo_def example_args_def fetch_repo_commit_records_def
        fetch_user_pull_requests_in_repos_def final_commit_list_def unique_commit_records_def)
  show ?thesis
    by (simp add: main_def Let_def env tok rep apis names dir made meta owners repos none)
qed

text \<open>Every other early end of the run has exit code 1 or is an exception, so a run that
  ends with \<open>sys.exit(0)\<close> has left every path but that of \<open>metadata.json\<close> as it was.\<close>

lemma save_metadata_other_paths:
  "save_metadata w output_path u names since fs = Inr fs1 \<Longrightarrow>
     p \<noteq> path_join output_path ''metadata.json'' \<Longrightarrow> fs1 p = fs p"
  by (auto simp: save_metadata_def Let_def split: if_splits write_outcome.splits)

lemma main_exit_zero_only_metadata:
  assumes "snd (main w a since ts fs) = SysExit 0"
    and "p \<noteq> path_join (path_join (arg_output a) ts) ''metadata.json''"
  shows "fst (main w a since ts fs) p = fs p"
  using assms
  by (auto simp: main_def Let_def
      split: if_splits sum.splits option.splits
      dest!: initialize_apis_code process_commits_and_prs_code
             fetch_repositories_from_code [unfolded fetch_repositories_def [symmetric]]
      dest: save_metadata_other_paths)

end
